(* ===== verification/Prelude.thy ===== *)
theory Prelude
  imports Main "HOL-Library.Word" "HOL-Library.Signed_Division"
begin

unbundle bit_operations_syntax

text \<open>
  Shared vocabulary of the development.

  Machine integers keep their width: \<open>u8\<close>, \<open>u16\<close> and \<open>u32\<close> are words, and the signed
  \<open>int32_t\<close>, \<open>int\<close> and \<open>status_t\<close> of the sources are the same 32-bit words read through
  \<open>sint\<close>.  A C conversion between \<open>int32_t\<close> and \<open>uint32_t\<close> keeps the bits, so it is the
  identity here; a comparison of a signed variable is written with \<open>is_neg\<close> or \<open>sint\<close>.

  Undefined behaviour (a null dereference, a read or a write past the end of an object, a
  use of an uninitialised variable, a call that the rules of a library leave undefined) is a value of \<open>fault\<close>, so every routine that touches memory returns a sum.
\<close>

type_synonym u8 = "8 word"
type_synonym u16 = "16 word"
type_synonym u32 = "32 word"
type_synonym i32 = "32 word"

named_theorems status_defs "the numeric values of return codes"

subsection \<open>Signed reading of a word\<close>

definition is_neg :: "i32 \<Rightarrow> bool" where
  "is_neg r \<longleftrightarrow> sint r < 0"

definition is_pos :: "i32 \<Rightarrow> bool" where
  "is_pos r \<longleftrightarrow> 0 < sint r"

text \<open>The remainder of C: it truncates towards zero, so it has the sign of the dividend.\<close>

definition c_rem :: "i32 \<Rightarrow> i32 \<Rightarrow> i32" where
  "c_rem a b = word_of_int (sint a smod sint b)"

lemma is_neg_zero [simp]: "\<not> is_neg 0"
  by (simp add: is_neg_def)

lemma is_neg_one [simp]: "\<not> is_neg 1"
  by (simp add: is_neg_def)

lemma is_neg_minus_one [simp]: "is_neg (- 1)"
  by (simp add: is_neg_def)

lemma is_neg_numeral [simp]:
  "is_neg (numeral n) \<longleftrightarrow> sint (numeral n :: i32) < 0"
  "is_neg (- numeral n) \<longleftrightarrow> sint (- numeral n :: i32) < 0"
  by (simp_all add: is_neg_def)

lemma is_pos_zero [simp]: "\<not> is_pos 0"
  by (simp add: is_pos_def)

lemma sint_range: "- (2 ^ 31) \<le> sint (w :: i32)" "sint (w :: i32) < 2 ^ 31"
  using sint_ge [of w] sint_lt [of w] by simp_all

text \<open>Arithmetic that stays inside the signed range is exact.\<close>

lemma sint_of_int_in_range:
  "- (2 ^ 31) \<le> k \<Longrightarrow> k < 2 ^ 31 \<Longrightarrow> sint (word_of_int k :: i32) = k"
  by (simp add: sint_sbintrunc' signed_take_bit_int_eq_self)

lemma sint_add_in_range:
  assumes "- (2 ^ 31) \<le> sint a + sint b" "sint a + sint b < 2 ^ 31"
  shows "sint ((a :: i32) + b) = sint a + sint b"
proof -
  have "a + b = word_of_int (sint a + sint b)" by simp
  with assms show ?thesis by (metis sint_of_int_in_range)
qed

lemma sint_inc: "sint a < 2 ^ 31 - 1 \<Longrightarrow> sint ((a :: i32) + 1) = sint a + 1"
  using sint_range [of a] by (subst sint_add_in_range) simp_all

lemma sint_dec: "- (2 ^ 31) < sint a \<Longrightarrow> sint ((a :: i32) - 1) = sint a - 1"
  using sint_range [of a] sint_add_in_range [of a "- 1"] by simp

text \<open>The sign of a word and of its negation, read off its unsigned value.\<close>

lemma is_neg_uint: "is_neg (r :: i32) \<longleftrightarrow> 2 ^ 31 \<le> uint r"
proof -
  have "sint r = (uint r + 2 ^ 31) mod 2 ^ 32 - 2 ^ 31"
    using int_word_sint [of "uint r", where 'a = 32] by simp
  moreover have "0 \<le> uint r" "uint r < 2 ^ 32" using uint_bounded [of r] by simp_all
  moreover from this have "(uint r + 2 ^ 31) mod 2 ^ 32 =
      (if uint r < 2 ^ 31 then uint r + 2 ^ 31 else uint r - 2 ^ 31)"
    using mod_pos_pos_trivial [of "uint r + 2 ^ 31" "2 ^ 32"]
      mod_pos_pos_trivial [of "uint r - 2 ^ 31" "2 ^ 32"] mod_add_self2 [of "uint r - 2 ^ 31" "2 ^ 32"]
    by (auto simp: algebra_simps)
  ultimately show ?thesis by (simp add: is_neg_def split: if_splits)
qed

lemma is_neg_minus: "is_neg (0 - r) \<longleftrightarrow> r \<noteq> 0 \<and> uint (r :: i32) \<le> 2 ^ 31"
proof -
  have r: "0 \<le> uint r" "uint r < 2 ^ 32" using uint_bounded [of r] by simp_all
  have "uint (0 - r) = (0 - uint r) mod 2 ^ 32" by (simp add: uint_word_ariths)
  with r have "uint (0 - r) = (if uint r = 0 then 0 else 2 ^ 32 - uint r)"
    by (auto simp: zmod_zminus1_eq_if)
  with r show ?thesis unfolding is_neg_uint by (auto simp: uint_0_iff)
qed

subsection \<open>Return codes\<close>

text \<open>
  The errno values of the platform's C library and the status codes of Android's
  \<open>utils/Errors.h\<close>, which are negated errno values except for \<open>UNKNOWN_ERROR\<close>
  (\<open>INT32_MIN\<close>).
\<close>

definition NO_ERROR :: i32 where [status_defs]: "NO_ERROR = 0"
definition PERMISSION_DENIED :: i32 where [status_defs]: "PERMISSION_DENIED = - 1"
definition BAD_VALUE :: i32 where [status_defs]: "BAD_VALUE = - 22"
definition INVALID_OPERATION :: i32 where [status_defs]: "INVALID_OPERATION = - 38"
definition UNKNOWN_ERROR :: i32 where [status_defs]: "UNKNOWN_ERROR = - 2147483648"
definition EBUSY :: i32 where [status_defs]: "EBUSY = 16"
definition EINVAL :: i32 where [status_defs]: "EINVAL = 22"
definition ETIME :: i32 where [status_defs]: "ETIME = 62"

lemma status_neg [simp]:
  "is_neg PERMISSION_DENIED" "is_neg BAD_VALUE" "is_neg UNKNOWN_ERROR"
  "is_neg (- EBUSY)" "is_neg (- EINVAL)" "\<not> is_neg NO_ERROR"
  by (simp_all add: status_defs)

subsection \<open>Memory faults\<close>

datatype fault = NullDeref | OutOfBounds | Uninitialised | WildPointer | ApiMisuse

type_synonym 'a outcome = "fault + 'a"

lemma map_sum_id_iff [simp]:
  "map_sum id g x = Inl f \<longleftrightarrow> x = Inl f" "map_sum id g x = Inr y \<longleftrightarrow> (\<exists>z. x = Inr z \<and> y = g z)"
  by (cases x; auto)+

text \<open>
  \<open>memcpy\<close> of \<open>n\<close> bytes at \<open>off\<close> in an object: a read, and a write that leaves the rest of
  the object alone.  Both are undefined past the end of the object.
\<close>

definition mem_read :: "u8 list \<Rightarrow> nat \<Rightarrow> nat \<Rightarrow> u8 list outcome" where
  "mem_read obj off n = (if off + n \<le> length obj then Inr (take n (drop off obj)) else Inl OutOfBounds)"

definition mem_write :: "u8 list \<Rightarrow> nat \<Rightarrow> u8 list \<Rightarrow> u8 list outcome" where
  "mem_write obj off bs =
     (if off + length bs \<le> length obj
      then Inr (take off obj @ bs @ drop (off + length bs) obj) else Inl OutOfBounds)"

lemma mem_read_Inr:
  "mem_read obj off n = Inr bs \<longleftrightarrow> off + n \<le> length obj \<and> bs = take n (drop off obj)"
  by (auto simp: mem_read_def)

lemma mem_write_Inr:
  "mem_write obj off bs = Inr obj' \<longleftrightarrow>
     off + length bs \<le> length obj \<and> obj' = take off obj @ bs @ drop (off + length bs) obj"
  by (auto simp: mem_write_def)

lemma take_drop_two: "Suc n < length xs \<Longrightarrow> take 2 (drop n xs) = [xs ! n, xs ! Suc n]"
  by (simp add: numeral_2_eq_2 Cons_nth_drop_Suc [symmetric] Suc_lessD)

lemma mem_write_length: "mem_write obj off bs = Inr obj' \<Longrightarrow> length obj' = length obj"
  by (auto simp: mem_write_Inr)

lemma mem_read_write:
  "mem_write obj off bs = Inr obj' \<Longrightarrow> mem_read obj' off (length bs) = Inr bs"
  by (auto simp: mem_write_Inr mem_read_def)

subsection \<open>Words in memory\<close>

text \<open>A 32-bit word in memory, least significant byte first, as on the ARM targets of the build.\<close>

definition le_bytes :: "u32 \<Rightarrow> u8 list" where
  "le_bytes w = [ucast w, ucast (drop_bit 8 w), ucast (drop_bit 16 w), ucast (drop_bit 24 w)]"

definition le_word :: "u8 list \<Rightarrow> u32" where
  "le_word bs = foldr (\<lambda>b w. ucast b OR push_bit 8 w) bs 0"

lemma length_le_bytes [simp]: "length (le_bytes w) = 4"
  by (simp add: le_bytes_def)

lemma le_word_le_bytes [simp]: "le_word (le_bytes w) = w"
proof (rule bit_word_eqI)
  fix n assume n: "n < LENGTH(32)"
  then consider "n < 8" | "8 \<le> n" "n < 16" | "16 \<le> n" "n < 24" | "24 \<le> n" "n < 32" by fastforce
  then show "bit (le_word (le_bytes w)) n = bit w n"
    by cases (auto simp: le_word_def le_bytes_def bit_simps)
qed

end
