(* ===== verification/Device.thy ===== *)
theory Device
  imports Prelude
begin

text \<open>
  The kernel interface of the secure element, \<open>esepmdaemon/p73.h\<close> and \<open>esepmdaemon/pn553.h\<close>:
  the ioctl requests with their numbers, and the flags of the access state that
  \<open>P61_GET_SPM_STATUS\<close> reports.  The drivers themselves are not part of the repository.
\<close>

subsection \<open>Requests\<close>

text \<open>The requests of \<open>/dev/p73\<close> (magic \<open>0xEA\<close>) and those of the NFC controller (magic \<open>0xE9\<close>).\<close>

datatype ioctl_cmd =
    P61_SET_PWR | P61_SET_DBG | P61_SET_POLL | P61_SET_SPM_PWR | P61_GET_SPM_STATUS
  | P61_SET_THROUGHPUT | P61_GET_ESE_ACCESS | P61_SET_POWER_SCHEME | P61_SET_DWNLD_STATUS
  | P61_INHIBIT_PWR_CNTRL
  | PN544_SET_PWR | P61_SET_SPI_PWR | P61_GET_PWR_STATUS | P61_SET_WIRED_ACCESS
  | P544_SET_NFC_SERVICE_PID | P544_GET_ESE_ACCESS | P544_SET_POWER_SCHEME
  | P544_REL_SVDD_WAIT | PN544_SET_DWNLD_STATUS | P544_SECURE_TIMER_SESSION

text \<open>\<open>_IOC\<close> of the C library's \<open>sys/ioctl.h\<close>: direction, size, type and number, packed into 32 bits.\<close>

definition IOC :: "u32 \<Rightarrow> u32 \<Rightarrow> u32 \<Rightarrow> u32 \<Rightarrow> u32" where
  "IOC dir ty nr sz = push_bit 30 dir OR push_bit 16 sz OR push_bit 8 ty OR nr"

definition IOW :: "u32 \<Rightarrow> u32 \<Rightarrow> u32 \<Rightarrow> u32" where "IOW ty nr sz = IOC 1 ty nr sz"
definition IOR :: "u32 \<Rightarrow> u32 \<Rightarrow> u32 \<Rightarrow> u32" where "IOR ty nr sz = IOC 2 ty nr sz"

definition P61_MAGIC :: u32 where "P61_MAGIC = 0xEA"
definition PN544_MAGIC :: u32 where "PN544_MAGIC = 0xE9"

fun p73_code :: "u32 \<Rightarrow> ioctl_cmd \<Rightarrow> u32 option" where
  "p73_code sz P61_SET_PWR = Some (IOW P61_MAGIC 0x01 sz)"
| "p73_code sz P61_SET_DBG = Some (IOW P61_MAGIC 0x02 sz)"
| "p73_code sz P61_SET_POLL = Some (IOW P61_MAGIC 0x03 sz)"
| "p73_code sz P61_SET_SPM_PWR = Some (IOW P61_MAGIC 0x04 sz)"
| "p73_code sz P61_GET_SPM_STATUS = Some (IOR P61_MAGIC 0x05 sz)"
| "p73_code sz P61_SET_THROUGHPUT = Some (IOW P61_MAGIC 0x06 sz)"
| "p73_code sz P61_GET_ESE_ACCESS = Some (IOW P61_MAGIC 0x07 sz)"
| "p73_code sz P61_SET_POWER_SCHEME = Some (IOW P61_MAGIC 0x08 sz)"
| "p73_code sz P61_SET_DWNLD_STATUS = Some (IOW P61_MAGIC 0x09 sz)"
| "p73_code sz P61_INHIBIT_PWR_CNTRL = Some (IOW P61_MAGIC 0x0A sz)"
| "p73_code sz _ = None"

fun pn553_code :: "u32 \<Rightarrow> ioctl_cmd \<Rightarrow> u32 option" where
  "pn553_code sz PN544_SET_PWR = Some (IOW PN544_MAGIC 0x01 sz)"
| "pn553_code sz P61_SET_SPI_PWR = Some (IOW PN544_MAGIC 0x02 sz)"
| "pn553_code sz P61_GET_PWR_STATUS = Some (IOR PN544_MAGIC 0x03 sz)"
| "pn553_code sz P61_SET_WIRED_ACCESS = Some (IOW PN544_MAGIC 0x04 sz)"
| "pn553_code sz P544_SET_NFC_SERVICE_PID = Some (IOW PN544_MAGIC 0x05 sz)"
| "pn553_code sz P544_GET_ESE_ACCESS = Some (IOW PN544_MAGIC 0x06 sz)"
| "pn553_code sz P544_SET_POWER_SCHEME = Some (IOW PN544_MAGIC 0x07 sz)"
| "pn553_code sz P544_REL_SVDD_WAIT = Some (IOW PN544_MAGIC 0x08 sz)"
| "pn553_code sz PN544_SET_DWNLD_STATUS = Some (IOW PN544_MAGIC 0x09 sz)"
| "pn553_code sz P544_SECURE_TIMER_SESSION = Some (IOW PN544_MAGIC 0x0A sz)"
| "pn553_code sz _ = None"

text \<open>The number a request has, whichever of the two headers defines it; \<open>sz\<close> is \<open>sizeof(long)\<close>.\<close>

definition ioctl_code :: "u32 \<Rightarrow> ioctl_cmd \<Rightarrow> u32" where
  "ioctl_code sz c = (case p73_code sz c of Some n \<Rightarrow> n
     | None \<Rightarrow> (case pn553_code sz c of Some n \<Rightarrow> n | None \<Rightarrow> 0))"

text \<open>The type and the number of a request are its low 16 bits, whatever its direction and size.\<close>

lemma IOC_low: "take_bit 16 (IOC dir ty nr sz) = take_bit 16 (push_bit 8 ty OR nr)"
  by (simp add: IOC_def take_bit_or take_bit_push_bit)

fun ioctl_low :: "ioctl_cmd \<Rightarrow> u32" where
  "ioctl_low P61_SET_PWR = 0xEA01"
| "ioctl_low P61_SET_DBG = 0xEA02"
| "ioctl_low P61_SET_POLL = 0xEA03"
| "ioctl_low P61_SET_SPM_PWR = 0xEA04"
| "ioctl_low P61_GET_SPM_STATUS = 0xEA05"
| "ioctl_low P61_SET_THROUGHPUT = 0xEA06"
| "ioctl_low P61_GET_ESE_ACCESS = 0xEA07"
| "ioctl_low P61_SET_POWER_SCHEME = 0xEA08"
| "ioctl_low P61_SET_DWNLD_STATUS = 0xEA09"
| "ioctl_low P61_INHIBIT_PWR_CNTRL = 0xEA0A"
| "ioctl_low PN544_SET_PWR = 0xE901"
| "ioctl_low P61_SET_SPI_PWR = 0xE902"
| "ioctl_low P61_GET_PWR_STATUS = 0xE903"
| "ioctl_low P61_SET_WIRED_ACCESS = 0xE904"
| "ioctl_low P544_SET_NFC_SERVICE_PID = 0xE905"
| "ioctl_low P544_GET_ESE_ACCESS = 0xE906"
| "ioctl_low P544_SET_POWER_SCHEME = 0xE907"
| "ioctl_low P544_REL_SVDD_WAIT = 0xE908"
| "ioctl_low PN544_SET_DWNLD_STATUS = 0xE909"
| "ioctl_low P544_SECURE_TIMER_SESSION = 0xE90A"

lemma ioctl_code_low: "take_bit 16 (ioctl_code sz c) = ioctl_low c"
  by (cases c) (simp_all add: ioctl_code_def IOW_def IOR_def IOC_low P61_MAGIC_def PN544_MAGIC_def)

lemma ioctl_low_inject: "ioctl_low c = ioctl_low c' \<longleftrightarrow> c = c'"
  by (cases c; cases c'; simp)

subsection \<open>The access state\<close>

datatype p61_access_state =
    P61_STATE_INVALID | P61_STATE_IDLE | P61_STATE_WIRED | P61_STATE_SPI | P61_STATE_DWNLD
  | P61_STATE_SPI_PRIO | P61_STATE_SPI_PRIO_END | P61_STATE_SPI_END | P61_STATE_JCP_DWNLD
  | P61_STATE_SPI_SVDD_SYNC_START | P61_STATE_SPI_SVDD_SYNC_END
  | P61_STATE_DWP_SVDD_SYNC_START | P61_STATE_DWP_SVDD_SYNC_END

fun state_bits :: "p61_access_state \<Rightarrow> i32" where
  "state_bits P61_STATE_INVALID = 0x0000"
| "state_bits P61_STATE_IDLE = 0x0100"
| "state_bits P61_STATE_WIRED = 0x0200"
| "state_bits P61_STATE_SPI = 0x0400"
| "state_bits P61_STATE_DWNLD = 0x0800"
| "state_bits P61_STATE_SPI_PRIO = 0x1000"
| "state_bits P61_STATE_SPI_PRIO_END = 0x2000"
| "state_bits P61_STATE_SPI_END = 0x4000"
| "state_bits P61_STATE_JCP_DWNLD = 0x8000"
| "state_bits P61_STATE_SPI_SVDD_SYNC_START = 0x0001"
| "state_bits P61_STATE_SPI_SVDD_SYNC_END = 0x0002"
| "state_bits P61_STATE_DWP_SVDD_SYNC_START = 0x0004"
| "state_bits P61_STATE_DWP_SVDD_SYNC_END = 0x0008"

text \<open>The two tests the power manager makes on a reported state word.\<close>

definition spi_in_use :: "i32 \<Rightarrow> bool" where
  "spi_in_use st \<longleftrightarrow> st AND (state_bits P61_STATE_SPI OR state_bits P61_STATE_SPI_PRIO) \<noteq> 0"

definition fw_downloading :: "i32 \<Rightarrow> bool" where
  "fw_downloading st \<longleftrightarrow> st AND state_bits P61_STATE_DWNLD \<noteq> 0"

text \<open>The enumerators are pairwise disjoint flags, so a test of one never sees another.\<close>

lemma state_bits_disjoint: "a \<noteq> b \<Longrightarrow> state_bits a AND state_bits b = 0"
  by (cases a; cases b; simp)

lemma fw_downloading_minus_one [simp]: "fw_downloading (- 1)"
  by (simp add: fw_downloading_def)

lemma spi_in_use_minus_one [simp]: "spi_in_use (- 1)"
  by (simp add: spi_in_use_def)

subsection \<open>Power schemes\<close>

datatype chip_pwr_scheme = PN67T_PWR_SCHEME | PN80T_LEGACY_PWR_SCHEME | PN80T_EXT_PMU_SCHEME

fun scheme_value :: "chip_pwr_scheme \<Rightarrow> i32" where
  "scheme_value PN67T_PWR_SCHEME = 0x01"
| "scheme_value PN80T_LEGACY_PWR_SCHEME = 2"
| "scheme_value PN80T_EXT_PMU_SCHEME = 3"

subsection \<open>Download state of the secure element's operating system\<close>

datatype jcop_dwnld_state =
    JCP_DWNLD_IDLE | JCP_DWNLD_INIT | JCP_DWNLD_START | JCP_SPI_DWNLD_COMPLETE
  | JCP_DWP_DWNLD_COMPLETE

fun jcop_value :: "jcop_dwnld_state \<Rightarrow> i32" where
  "jcop_value JCP_DWNLD_IDLE = 0"
| "jcop_value JCP_DWNLD_INIT = 1"
| "jcop_value JCP_DWNLD_START = 2"
| "jcop_value JCP_SPI_DWNLD_COMPLETE = 3"
| "jcop_value JCP_DWP_DWNLD_COMPLETE = 4"

text \<open>Every ioctl request of the two driver headers has its own number, whatever the size
  of \<open>long\<close> on the target: a request meant for \<open>/dev/p73\<close> is never taken for one of the NFC
  controller's, although the two headers number their requests alike.\<close>

lemma ioctl_code_inject: "ioctl_code sz c = ioctl_code sz c' \<longleftrightarrow> c = c'"
  by (metis ioctl_code_low ioctl_low_inject)

end
