(* ===== verification/PidMap.thy ===== *)
theory PidMap
  imports Prelude
begin

text \<open>
  \<open>std::map<uint32_t, T>\<close>, as \<open>eSEPowerManager::pidsMap\<close> uses it: an association list kept
  in increasing key order, which is the order the iterators of \<open>printPidsMap\<close> and
  \<open>killall\<close> follow.  The interface the power manager relies on is the locale
  \<open>ordered_map\<close>, interpreted on the list operations at the end of the theory.
\<close>

type_synonym 'v pmap = "(u32 \<times> 'v) list"

definition pm_empty :: "'v pmap" where "pm_empty = []"

definition pm_find :: "'v pmap \<Rightarrow> u32 \<Rightarrow> 'v option" where
  "pm_find m k = map_of m k"

definition pm_count :: "'v pmap \<Rightarrow> u32 \<Rightarrow> nat" where
  "pm_count m k = (case pm_find m k of None \<Rightarrow> 0 | Some _ \<Rightarrow> 1)"

definition pm_is_empty :: "'v pmap \<Rightarrow> bool" where
  "pm_is_empty m \<longleftrightarrow> m = []"

text \<open>\<open>insert\<close> leaves the value of a key that is already there; \<open>m[k] = v\<close> replaces it.\<close>

fun pm_insert :: "u32 \<Rightarrow> 'v \<Rightarrow> 'v pmap \<Rightarrow> 'v pmap" where
  "pm_insert k v [] = [(k, v)]"
| "pm_insert k v ((k', v') # m) =
     (if k < k' then (k, v) # (k', v') # m
      else if k = k' then (k', v') # m else (k', v') # pm_insert k v m)"

fun pm_assign :: "u32 \<Rightarrow> 'v \<Rightarrow> 'v pmap \<Rightarrow> 'v pmap" where
  "pm_assign k v [] = [(k, v)]"
| "pm_assign k v ((k', v') # m) =
     (if k < k' then (k, v) # (k', v') # m
      else if k = k' then (k', v) # m else (k', v') # pm_assign k v m)"

fun pm_erase :: "u32 \<Rightarrow> 'v pmap \<Rightarrow> 'v pmap" where
  "pm_erase k [] = []"
| "pm_erase k ((k', v') # m) = (if k = k' then m else (k', v') # pm_erase k m)"

definition pm_inv :: "'v pmap \<Rightarrow> bool" where
  "pm_inv m \<longleftrightarrow> sorted_wrt (<) (map fst m)"

subsection \<open>The interface\<close>

locale ordered_map =
  fixes empty :: "'m"
    and find :: "'m \<Rightarrow> u32 \<Rightarrow> 'v option"
    and insert :: "u32 \<Rightarrow> 'v \<Rightarrow> 'm \<Rightarrow> 'm"
    and assign :: "u32 \<Rightarrow> 'v \<Rightarrow> 'm \<Rightarrow> 'm"
    and erase :: "u32 \<Rightarrow> 'm \<Rightarrow> 'm"
    and is_empty :: "'m \<Rightarrow> bool"
    and inv :: "'m \<Rightarrow> bool"
  assumes find_empty: "find empty = (\<lambda>_. None)"
    and find_insert: "inv m \<Longrightarrow> find (insert k v m) =
          (case find m k of None \<Rightarrow> (find m)(k \<mapsto> v) | Some _ \<Rightarrow> find m)"
    and find_assign: "inv m \<Longrightarrow> find (assign k v m) = (find m)(k \<mapsto> v)"
    and find_erase: "inv m \<Longrightarrow> find (erase k m) = (find m)(k := None)"
    and is_empty_iff: "inv m \<Longrightarrow> is_empty m \<longleftrightarrow> (\<forall>k. find m k = None)"
    and inv_empty: "inv empty"
    and inv_insert: "inv m \<Longrightarrow> inv (insert k v m)"
    and inv_assign: "inv m \<Longrightarrow> inv (assign k v m)"
    and inv_erase: "inv m \<Longrightarrow> inv (erase k m)"
begin

text \<open>A client that counts with the values sees exactly one count change per operation.\<close>

lemma tally_insert_fresh:
  "inv m \<Longrightarrow> find m k = None \<Longrightarrow>
    (\<lambda>p. case find (insert k v m) p of None \<Rightarrow> 0 | Some d \<Rightarrow> f d) =
    (\<lambda>p. case find m p of None \<Rightarrow> 0 | Some d \<Rightarrow> f d)(k := (f v :: nat))"
  by (auto simp: find_insert fun_eq_iff)

lemma tally_assign:
  "inv m \<Longrightarrow>
    (\<lambda>p. case find (assign k v m) p of None \<Rightarrow> 0 | Some d \<Rightarrow> f d) =
    (\<lambda>p. case find m p of None \<Rightarrow> 0 | Some d \<Rightarrow> f d)(k := (f v :: nat))"
  by (auto simp: find_assign fun_eq_iff)

lemma tally_erase:
  "inv m \<Longrightarrow>
    (\<lambda>p. case find (erase k m) p of None \<Rightarrow> 0 | Some d \<Rightarrow> f d) =
    (\<lambda>p. case find m p of None \<Rightarrow> 0 | Some d \<Rightarrow> f d)(k := (0 :: nat))"
  by (auto simp: find_erase fun_eq_iff)

lemma all_assign:
  "inv m \<Longrightarrow> (\<And>p d. find m p = Some d \<Longrightarrow> Q p d) \<Longrightarrow> Q k v \<Longrightarrow>
    find (assign k v m) p = Some d \<Longrightarrow> Q p d"
  by (auto simp: find_assign split: if_splits)

lemma all_insert:
  "inv m \<Longrightarrow> (\<And>p d. find m p = Some d \<Longrightarrow> Q p d) \<Longrightarrow> Q k v \<Longrightarrow>
    find (insert k v m) p = Some d \<Longrightarrow> Q p d"
  by (auto simp: find_insert split: if_splits option.splits)

lemma all_erase:
  "inv m \<Longrightarrow> (\<And>p d. find m p = Some d \<Longrightarrow> Q p d) \<Longrightarrow> find (erase k m) p = Some d \<Longrightarrow> Q p d"
  by (auto simp: find_erase split: if_splits)

lemma not_empty_assign: "inv m \<Longrightarrow> \<not> is_empty (assign k v m)"
  by (auto simp: is_empty_iff inv_assign find_assign intro!: exI [of _ k])

lemma not_empty_insert: "inv m \<Longrightarrow> \<not> is_empty (insert k v m)"
  by (auto simp: is_empty_iff inv_insert find_insert intro!: exI [of _ k] split: option.splits)

lemma not_empty_find: "inv m \<Longrightarrow> find m k = Some d \<Longrightarrow> \<not> is_empty m"
  by (auto simp: is_empty_iff)

end

subsection \<open>The list implements it\<close>

lemma pm_keys_insert: "set (map fst (pm_insert k v m)) = insert k (set (map fst m))"
  by (induction k v m rule: pm_insert.induct) auto

lemma pm_keys_assign: "set (map fst (pm_assign k v m)) = insert k (set (map fst m))"
  by (induction k v m rule: pm_assign.induct) auto

lemma pm_keys_erase: "set (map fst (pm_erase k m)) \<subseteq> set (map fst m)"
  by (induction k m rule: pm_erase.induct) auto

lemma pm_inv_Cons: "pm_inv ((k, v) # m) \<longleftrightarrow> (\<forall>x \<in> set (map fst m). k < x) \<and> pm_inv m"
  by (auto simp: pm_inv_def)

lemma pm_inv_insert: "pm_inv m \<Longrightarrow> pm_inv (pm_insert k v m)"
  by (induction k v m rule: pm_insert.induct)
    (auto simp: pm_inv_Cons pm_keys_insert pm_inv_def simp del: set_map)

lemma pm_inv_assign: "pm_inv m \<Longrightarrow> pm_inv (pm_assign k v m)"
  by (induction k v m rule: pm_assign.induct)
    (auto simp: pm_inv_Cons pm_keys_assign pm_inv_def simp del: set_map)

lemma pm_inv_erase: "pm_inv m \<Longrightarrow> pm_inv (pm_erase k m)"
  by (induction k m rule: pm_erase.induct)
    (use pm_keys_erase in \<open>fastforce simp: pm_inv_Cons simp del: set_map\<close>)+

lemma pm_find_Nil [simp]: "pm_find [] k = None"
  by (simp add: pm_find_def)

lemma pm_find_Cons [simp]:
  "pm_find ((k', v') # m) k = (if k = k' then Some v' else pm_find m k)"
  by (simp add: pm_find_def)

lemma pm_find_None: "k \<notin> set (map fst m) \<Longrightarrow> pm_find m k = None"
  by (simp add: pm_find_def map_of_eq_None_iff)

lemma pm_find_below: "\<forall>x \<in> set (map fst m). k < x \<Longrightarrow> pm_find m k = None"
  by (rule pm_find_None) auto

lemma pm_find_insert:
  "pm_inv m \<Longrightarrow> pm_find (pm_insert k v m) =
    (case pm_find m k of None \<Rightarrow> (pm_find m)(k \<mapsto> v) | Some _ \<Rightarrow> pm_find m)"
proof (induction k v m rule: pm_insert.induct)
  case (1 k v)
  then show ?case by (auto simp: fun_eq_iff)
next
  case (2 k v k' v' m)
  then have inv: "pm_inv m" and above: "\<forall>x \<in> set (map fst m). k' < x"
    by (simp_all add: pm_inv_Cons)
  show ?case
  proof (cases "k < k'")
    case True
    with above have "pm_find m k = None" by (intro pm_find_below) auto
    with True show ?thesis by (auto simp: fun_eq_iff)
  next
    case False
    with "2.IH" inv show ?thesis by (auto simp: fun_eq_iff split: option.splits)
  qed
qed

lemma pm_find_assign: "pm_inv m \<Longrightarrow> pm_find (pm_assign k v m) = (pm_find m)(k \<mapsto> v)"
  by (induction k v m rule: pm_assign.induct) (auto simp: fun_eq_iff pm_inv_Cons)

lemma pm_find_erase: "pm_inv m \<Longrightarrow> pm_find (pm_erase k m) = (pm_find m)(k := None)"
proof (induction k m rule: pm_erase.induct)
  case (1 k)
  then show ?case by (auto simp: fun_eq_iff)
next
  case (2 k k' v' m)
  then have "pm_find m k' = None" by (intro pm_find_below) (simp add: pm_inv_Cons)
  with 2 show ?case by (auto simp: fun_eq_iff pm_inv_Cons)
qed

lemma pm_is_empty_iff: "pm_is_empty m \<longleftrightarrow> (\<forall>k. pm_find m k = None)"
  by (cases m) (auto simp: pm_is_empty_def split: if_splits)

interpretation pm: ordered_map pm_empty pm_find pm_insert pm_assign pm_erase pm_is_empty pm_inv
  by unfold_locales
    (simp_all add: pm_empty_def pm_find_insert pm_find_assign pm_find_erase pm_inv_insert
      pm_inv_assign pm_inv_erase fun_eq_iff pm_is_empty_iff, simp add: pm_inv_def)

lemma pm_count_pos: "0 < pm_count m k \<longleftrightarrow> (\<exists>d. pm_find m k = Some d)"
  by (auto simp: pm_count_def split: option.splits)

end
