(* ===== verification/Parcel.thy ===== *)
theory Parcel
  imports Prelude
begin

text \<open>
  The interprocess calls of the platform, which both services use: Android's \<open>Parcel\<close>, the
  transport behind \<open>remote()->transact\<close> and the default \<open>BBinder::onTransact\<close>.  None of
  them is in the repository, so they are parameters: a record of the parcel operations the
  sources call, and functions for the other two.  What the sources rely on is stated here once:
  a parcel yields its values in the order they were written (\<open>parcel_fifo\<close>), and a call is
  delivered to the handler of the other side (\<open>delivers\<close>).
\<close>

subsection \<open>Parcels\<close>

text \<open>A remote object by its identity.\<close>

type_synonym ibinder = nat

record 'p parcel_api =
  new_parcel :: 'p
  write_token :: "string \<Rightarrow> 'p \<Rightarrow> 'p"
  check_interface :: "string \<Rightarrow> 'p \<Rightarrow> bool \<times> 'p"
  write_int32 :: "u32 \<Rightarrow> 'p \<Rightarrow> i32 \<times> 'p"
  read_int32 :: "'p \<Rightarrow> u32 \<times> 'p"
  write_strong :: "ibinder option \<Rightarrow> 'p \<Rightarrow> 'p"
  read_strong :: "'p \<Rightarrow> ibinder option \<times> 'p"
  write_no_exception :: "'p \<Rightarrow> 'p"
  read_exception :: "'p \<Rightarrow> i32 \<times> 'p"
  write_bytes :: "u8 list \<Rightarrow> 'p \<Rightarrow> 'p"
  read_bytes :: "nat \<Rightarrow> 'p \<Rightarrow> (i32 \<times> u8 list) \<times> 'p"
  read_inplace :: "nat \<Rightarrow> 'p \<Rightarrow> u8 list option \<times> 'p"
  write_inplace :: "nat \<Rightarrow> 'p \<Rightarrow> (u8 list \<Rightarrow> 'p) option"

text \<open>
  What a parcel contains.  \<open>write_inplace n\<close> reserves \<open>n\<close> bytes in the parcel (or fails); the
  function it gives returns the parcel with those bytes filled in.  A read past the end gives
  0 for an integer and for the exception code, and a null pointer for a byte range.
\<close>

datatype item = Token string | Int32 u32 | Strong "ibinder option" | NoException | Bytes "u8 list"

definition parcel_writes :: "'p parcel_api \<Rightarrow> ('p \<Rightarrow> item list) \<Rightarrow> bool" where
  "parcel_writes P items \<longleftrightarrow> items (new_parcel P) = [] \<and>
     (\<forall>d p. items (write_token P d p) = items p @ [Token d]) \<and>
     (\<forall>w p. fst (write_int32 P w p) = NO_ERROR \<and> items (snd (write_int32 P w p)) = items p @ [Int32 w]) \<and>
     (\<forall>b p. items (write_strong P b p) = items p @ [Strong b]) \<and>
     (\<forall>p. items (write_no_exception P p) = items p @ [NoException]) \<and>
     (\<forall>bs p. items (write_bytes P bs p) = items p @ [Bytes bs]) \<and>
     (\<forall>n p. n < 2 ^ 31 \<longrightarrow> (\<exists>fill. write_inplace P n p = Some fill \<and>
        (\<forall>bs. length bs = n \<longrightarrow> items (fill bs) = items p @ [Bytes bs])))"

definition parcel_reads :: "'p parcel_api \<Rightarrow> ('p \<Rightarrow> item list) \<Rightarrow> bool" where
  "parcel_reads P items \<longleftrightarrow>
     (\<forall>d d' p xs. items p = Token d # xs \<longrightarrow>
        fst (check_interface P d' p) = (d = d') \<and> items (snd (check_interface P d' p)) = xs) \<and>
     (\<forall>w p xs. items p = Int32 w # xs \<longrightarrow> fst (read_int32 P p) = w \<and> items (snd (read_int32 P p)) = xs) \<and>
     (\<forall>p. items p = [] \<longrightarrow> fst (read_int32 P p) = 0 \<and> items (snd (read_int32 P p)) = []) \<and>
     (\<forall>b p xs. items p = Strong b # xs \<longrightarrow> fst (read_strong P p) = b \<and> items (snd (read_strong P p)) = xs) \<and>
     (\<forall>p xs. items p = NoException # xs \<longrightarrow> fst (read_exception P p) = 0 \<and> items (snd (read_exception P p)) = xs) \<and>
     (\<forall>p. items p = [] \<longrightarrow> fst (read_exception P p) = 0 \<and> items (snd (read_exception P p)) = []) \<and>
     (\<forall>bs p xs. items p = Bytes bs # xs \<longrightarrow>
        fst (read_inplace P (length bs) p) = Some bs \<and> items (snd (read_inplace P (length bs) p)) = xs \<and>
        fst (read_bytes P (length bs) p) = (NO_ERROR, bs) \<and> items (snd (read_bytes P (length bs) p)) = xs)"

definition parcel_fifo :: "'p parcel_api \<Rightarrow> ('p \<Rightarrow> item list) \<Rightarrow> bool" where
  "parcel_fifo P items \<longleftrightarrow> parcel_writes P items \<and> parcel_reads P items"

lemma fifo_writes:
  assumes "parcel_fifo P items"
  shows "items (new_parcel P) = []" "items (write_token P d p) = items p @ [Token d]"
    "fst (write_int32 P w p) = NO_ERROR" "items (snd (write_int32 P w p)) = items p @ [Int32 w]"
    "items (write_strong P b p) = items p @ [Strong b]"
    "items (write_no_exception P p) = items p @ [NoException]"
    "items (write_bytes P bs p) = items p @ [Bytes bs]"
  using assms by (simp_all add: parcel_fifo_def parcel_writes_def)

lemma fifo_write_inplace:
  assumes "parcel_fifo P items" and "n < 2 ^ 31"
  obtains fill where "write_inplace P n p = Some fill"
    and "\<And>bs. length bs = n \<Longrightarrow> items (fill bs) = items p @ [Bytes bs]"
proof -
  from assms have "\<exists>fill. write_inplace P n p = Some fill \<and>
      (\<forall>bs. length bs = n \<longrightarrow> items (fill bs) = items p @ [Bytes bs])"
    unfolding parcel_fifo_def parcel_writes_def by blast
  then show thesis using that by blast
qed

lemma fifo_reads:
  assumes "parcel_fifo P items"
  shows "items p = Token d # xs \<Longrightarrow> fst (check_interface P d' p) = (d = d')"
    "items p = Token d # xs \<Longrightarrow> items (snd (check_interface P d' p)) = xs"
    "items p = Int32 w # xs \<Longrightarrow> fst (read_int32 P p) = w"
    "items p = Int32 w # xs \<Longrightarrow> items (snd (read_int32 P p)) = xs"
    "items p = [] \<Longrightarrow> fst (read_int32 P p) = 0"
    "items p = Strong b # xs \<Longrightarrow> fst (read_strong P p) = b"
    "items p = Strong b # xs \<Longrightarrow> items (snd (read_strong P p)) = xs"
    "items p = NoException # xs \<Longrightarrow> fst (read_exception P p) = 0"
    "items p = NoException # xs \<Longrightarrow> items (snd (read_exception P p)) = xs"
    "items p = [] \<Longrightarrow> fst (read_exception P p) = 0"
    "items p = [] \<Longrightarrow> items (snd (read_exception P p)) = []"
    "items p = Bytes bs # xs \<Longrightarrow> n = length bs \<Longrightarrow> fst (read_inplace P n p) = Some bs"
    "items p = Bytes bs # xs \<Longrightarrow> n = length bs \<Longrightarrow> items (snd (read_inplace P n p)) = xs"
    "items p = Bytes bs # xs \<Longrightarrow> n = length bs \<Longrightarrow> fst (read_bytes P n p) = (NO_ERROR, bs)"
    "items p = Bytes bs # xs \<Longrightarrow> n = length bs \<Longrightarrow> items (snd (read_bytes P n p)) = xs"
  using assms by (simp_all add: parcel_fifo_def parcel_reads_def)

lemmas fifo = fifo_writes fifo_reads

text \<open>Parcels of this kind exist: the list of the items itself.\<close>

definition list_parcel :: "item list parcel_api" where
  "list_parcel = \<lparr>new_parcel = [],
     write_token = (\<lambda>d p. p @ [Token d]),
     check_interface = (\<lambda>d p. case p of Token d' # xs \<Rightarrow> (d' = d, xs) | _ \<Rightarrow> (False, p)),
     write_int32 = (\<lambda>w p. (NO_ERROR, p @ [Int32 w])),
     read_int32 = (\<lambda>p. case p of Int32 w # xs \<Rightarrow> (w, xs) | _ \<Rightarrow> (0, p)),
     write_strong = (\<lambda>b p. p @ [Strong b]),
     read_strong = (\<lambda>p. case p of Strong b # xs \<Rightarrow> (b, xs) | _ \<Rightarrow> (None, p)),
     write_no_exception = (\<lambda>p. p @ [NoException]),
     read_exception = (\<lambda>p. case p of NoException # xs \<Rightarrow> (0, xs) | _ \<Rightarrow> (0, p)),
     write_bytes = (\<lambda>bs p. p @ [Bytes bs]),
     read_bytes = (\<lambda>n p. case p of Bytes bs # xs \<Rightarrow>
       if length bs = n then ((NO_ERROR, bs), xs) else ((BAD_VALUE, []), p) | _ \<Rightarrow> ((BAD_VALUE, []), p)),
     read_inplace = (\<lambda>n p. case p of Bytes bs # xs \<Rightarrow>
       if length bs = n then (Some bs, xs) else (None, p) | _ \<Rightarrow> (None, p)),
     write_inplace = (\<lambda>n p. if n < 2 ^ 31 then Some (\<lambda>bs. p @ [Bytes bs]) else None)\<rparr>"

lemma list_parcel_fifo: "parcel_fifo list_parcel (\<lambda>p. p)"
  by (simp add: parcel_fifo_def parcel_writes_def parcel_reads_def list_parcel_def)

subsection \<open>Transactions\<close>

text \<open>
  A handler receives the code, the data parcel and an empty reply, and gives a status and the
  filled reply; \<open>transact\<close> gives the status and the reply the caller reads.  An \<open>Inl\<close> is a
  memory fault of the serving process.
\<close>

type_synonym ('p, 's) handler = "u32 \<Rightarrow> 'p \<Rightarrow> 'p \<Rightarrow> 's \<Rightarrow> (i32 \<times> 'p) \<times> 's"
type_synonym ('p, 's) remote = "u32 \<Rightarrow> 'p \<Rightarrow> 's \<Rightarrow> (i32 \<times> 'p) \<times> 's"

definition delivers :: "'p parcel_api \<Rightarrow> ('p \<Rightarrow> item list) \<Rightarrow> ('p, 's) handler \<Rightarrow> ('p, 's) remote \<Rightarrow> bool" where
  "delivers P items H T \<longleftrightarrow> (\<forall>code data s. \<exists>data' reply'.
     items data' = items data \<and>
     T code data s = ((fst (fst (H code data' (new_parcel P) s)), reply'),
       snd (H code data' (new_parcel P) s)) \<and>
     (fst (fst (H code data' (new_parcel P) s)) = NO_ERROR \<longrightarrow>
        items reply' = items (snd (fst (H code data' (new_parcel P) s)))))"

lemma deliversE:
  assumes "delivers P items H T"
  obtains data' reply' where "items data' = items data"
    and "T code data s = ((fst (fst (H code data' (new_parcel P) s)), reply'),
       snd (H code data' (new_parcel P) s))"
    and "fst (fst (H code data' (new_parcel P) s)) = NO_ERROR \<Longrightarrow>
        items reply' = items (snd (fst (H code data' (new_parcel P) s)))"
  using assms unfolding delivers_def by metis

definition loopback :: "'p parcel_api \<Rightarrow> ('p, 's) handler \<Rightarrow> ('p, 's) remote" where
  "loopback P H code data s = H code data (new_parcel P) s"

lemma loopback_delivers: "delivers P items H (loopback P H)"
  unfolding delivers_def loopback_def by (metis prod.collapse)

text \<open>
  The default handler of the platform, which both services fall back to: it does not know the
  code, and leaves the reply alone.
\<close>

definition UNKNOWN_TRANSACTION :: i32 where [status_defs]: "UNKNOWN_TRANSACTION = - 74"

definition base_refuses :: "('p \<Rightarrow> item list) \<Rightarrow> (u32 \<Rightarrow> 'p \<Rightarrow> 'p \<Rightarrow> i32 \<times> 'p) \<Rightarrow> bool" where
  "base_refuses items B \<longleftrightarrow> (\<forall>code data reply. fst (B code data reply) = UNKNOWN_TRANSACTION \<and>
     items (snd (B code data reply)) = items reply)"

definition base_unknown :: "u32 \<Rightarrow> 'p \<Rightarrow> 'p \<Rightarrow> i32 \<times> 'p" where
  "base_unknown code data reply = (UNKNOWN_TRANSACTION, reply)"

lemma base_unknown_refuses: "base_refuses items base_unknown"
  by (simp add: base_refuses_def base_unknown_def)

definition FIRST_CALL_TRANSACTION :: u32 where "FIRST_CALL_TRANSACTION = 1"

subsection \<open>Handlers that may fault\<close>

text \<open>
  A handler may die of a memory fault; its client is then told \<open>DEAD_OBJECT\<close>.
\<close>

type_synonym ('p, 's) fhandler = "u32 \<Rightarrow> 'p \<Rightarrow> 'p \<Rightarrow> 's \<Rightarrow> (i32 \<times> 'p) outcome \<times> 's"

definition DEAD_OBJECT :: i32 where [status_defs]: "DEAD_OBJECT = - 32"

definition served :: "('p, 's) fhandler \<Rightarrow> ('p, 's) handler" where
  "served H code data reply s =
     (case H code data reply s of (Inl f, s) \<Rightarrow> ((DEAD_OBJECT, reply), s) | (Inr x, s) \<Rightarrow> (x, s))"

text \<open>A transaction whose outcome does not depend on how the data parcel came about.\<close>

lemma transact_served:
  assumes "delivers P items (served H) T"
    and "\<And>data'. items data' = items data \<Longrightarrow> \<exists>reply. H code data' (new_parcel P) s = (Inr (st, reply), s') \<and>
      (st = NO_ERROR \<longrightarrow> items reply = xs)"
  shows "\<exists>reply'. T code data s = ((st, reply'), s') \<and> (st = NO_ERROR \<longrightarrow> items reply' = xs)"
proof -
  obtain data' reply' where d: "items data' = items data"
    and T: "T code data s = ((fst (fst (served H code data' (new_parcel P) s)), reply'),
       snd (served H code data' (new_parcel P) s))"
    and r: "fst (fst (served H code data' (new_parcel P) s)) = NO_ERROR \<Longrightarrow>
        items reply' = items (snd (fst (served H code data' (new_parcel P) s)))"
    using deliversE [OF assms(1)] by metis
  obtain reply where "H code data' (new_parcel P) s = (Inr (st, reply), s')"
    "st = NO_ERROR \<longrightarrow> items reply = xs"
    using assms(2) [OF d] by blast
  with T r show ?thesis by (simp add: served_def)
qed

lemma transact_fault:
  assumes "delivers P items (served H) T"
    and "\<And>data'. items data' = items data \<Longrightarrow> H code data' (new_parcel P) s = (Inl f, s')"
  shows "\<exists>reply'. T code data s = ((DEAD_OBJECT, reply'), s')"
proof -
  obtain data' reply' where d: "items data' = items data"
    and T: "T code data s = ((fst (fst (served H code data' (new_parcel P) s)), reply'),
       snd (served H code data' (new_parcel P) s))"
    using deliversE [OF assms(1)] by metis
  with assms(2) [OF d] show ?thesis by (simp add: served_def)
qed

end
