(* ===== verification/Callers.thy ===== *)
theory Callers
  imports Prelude
begin

text \<open>
  Who calls: the uid and the pid the IPC layer reports for a transaction
  (\<open>IPCThreadState::getCallingUid\<close> and \<open>getCallingPid\<close>), and the checks both services make on the
  uid, which keep only its part below 100000 (the user's number is in the rest).
\<close>

record caller =
  calling_uid :: i32
  calling_pid :: i32

definition SYSTEM_UID :: i32 where "SYSTEM_UID = 1000"
definition ROOT_UID :: i32 where "ROOT_UID = 0"
definition RADIO_UID :: i32 where "RADIO_UID = 1001"

definition bad_uid :: "i32 \<Rightarrow> bool" where
  "bad_uid calling = (let uid = c_rem calling 100000
     in uid \<noteq> SYSTEM_UID \<and> uid \<noteq> ROOT_UID \<and> uid \<noteq> RADIO_UID)"

definition bad_system_uid :: "i32 \<Rightarrow> bool" where
  "bad_system_uid calling = (let uid = c_rem calling 100000 in uid \<noteq> SYSTEM_UID \<and> uid \<noteq> ROOT_UID)"

lemma bad_uid_system: "bad_uid u \<Longrightarrow> bad_system_uid u"
  by (simp add: bad_uid_def bad_system_uid_def Let_def)

text \<open>For a uid that is not negative, the remainder of C is the mathematical one.\<close>

lemma user_part:
  assumes "0 \<le> sint uid"
  shows "c_rem uid 100000 = w \<longleftrightarrow> sint uid mod 100000 = sint w"
proof -
  let ?r = "sint uid mod 100000"
  have r: "0 \<le> ?r" "?r < 100000" by simp_all
  have "c_rem uid 100000 = word_of_int ?r"
    using assms by (simp add: c_rem_def signed_modulo_int_def sgn_if)
  then have "sint (c_rem uid 100000) = ?r"
    using r by (simp add: sint_of_int_in_range)
  then show ?thesis by (metis signed_word_eqI)
qed

end
