(* ===== verification/PowerManager.thy ===== *)
theory PowerManager
  imports Device PidMap Parcel Callers
begin

text \<open>
  \<open>esepmdaemon/eSEPowerManager.cpp\<close>: the daemon that powers the secure element for its
  clients and counts them per process.

  The kernel, the IPC driver and the fingerprint library are parameters.  Every call to
  them is logged in \<open>trace\<close> (newest first), and the environment \<open>epm_env\<close> answers a call
  from everything that has happened before, so it may behave in any way, failures included.
  A logging macro evaluates its arguments and nothing else.
\<close>

subsection \<open>Events and environment\<close>

text \<open>The death recipients the daemon allocates are numbered.\<close>

datatype notifier = ClientDiedNotifier (mPid: u32) (mObj: nat)

datatype event =
    EvOpen string i32
  | EvIoctl i32 ioctl_cmd i32 i32
  | EvGetStatus i32 i32 "i32 option"
  | EvClose i32 i32
  | EvLink ibinder notifier i32
  | EvUnlink ibinder notifier
  | EvBinding i32

record epm_env =
  sys_open :: "event list \<Rightarrow> string \<Rightarrow> i32"
  sys_ioctl :: "event list \<Rightarrow> i32 \<Rightarrow> ioctl_cmd \<Rightarrow> i32 \<Rightarrow> i32"
  sys_get_status :: "event list \<Rightarrow> i32 \<Rightarrow> i32 \<times> i32 option"
  sys_close :: "event list \<Rightarrow> i32 \<Rightarrow> i32"
  link_to_death :: "event list \<Rightarrow> ibinder \<Rightarrow> notifier \<Rightarrow> i32"
  fp_binding :: "event list \<Rightarrow> i32"

subsection \<open>State\<close>

record service_data =
  l_serviceCb :: "ibinder option"
  l_deathNotifier :: "notifier option"
  client_threadCount :: i32

record epm =
  nq_node :: i32
  pidsMap :: "service_data pmap"
  isFirstCalled :: bool
  next_obj :: nat
  trace :: "event list"

definition epm_init :: epm where
  "epm_init = \<lparr>nq_node = - 1, pidsMap = pm_empty, isFirstCalled = True, next_obj = 0, trace = []\<rparr>"

subsection \<open>System calls\<close>

definition nfc_dev_node :: string where "nfc_dev_node = ''/dev/p73''"

definition do_open :: "epm_env \<Rightarrow> epm \<Rightarrow> i32 \<times> epm" where
  "do_open E s = (let r = sys_open E (trace s) nfc_dev_node
     in (r, s\<lparr>trace := EvOpen nfc_dev_node r # trace s\<rparr>))"

definition do_ioctl :: "epm_env \<Rightarrow> ioctl_cmd \<Rightarrow> i32 \<Rightarrow> epm \<Rightarrow> i32 \<times> epm" where
  "do_ioctl E cmd arg s = (let r = sys_ioctl E (trace s) (nq_node s) cmd arg
     in (r, s\<lparr>trace := EvIoctl (nq_node s) cmd arg r # trace s\<rparr>))"

text \<open>
  \<open>ioctl(nq_node, P61_GET_SPM_STATUS, &ese_current_state)\<close>: the driver may write the
  variable, which starts as \<open>init\<close>, or leave it.
\<close>

definition do_get_status :: "epm_env \<Rightarrow> i32 \<Rightarrow> epm \<Rightarrow> (i32 \<times> i32) \<times> epm" where
  "do_get_status E init s = (let (r, st) = sys_get_status E (trace s) (nq_node s)
     in ((r, case st of None \<Rightarrow> init | Some v \<Rightarrow> v),
         s\<lparr>trace := EvGetStatus (nq_node s) r st # trace s\<rparr>))"

text \<open>\<open>close(nq_node)\<close>: the descriptor is forgotten only when the call succeeds.\<close>

definition close_node :: "epm_env \<Rightarrow> epm \<Rightarrow> epm" where
  "close_node E s = (let r = sys_close E (trace s) (nq_node s);
       s = s\<lparr>trace := EvClose (nq_node s) r # trace s\<rparr>
     in if r \<noteq> 0 then s else s\<lparr>nq_node := - 1\<rparr>)"

definition do_link :: "epm_env \<Rightarrow> ibinder \<Rightarrow> notifier \<Rightarrow> epm \<Rightarrow> i32 \<times> epm" where
  "do_link E b n s = (let r = link_to_death E (trace s) b n
     in (r, s\<lparr>trace := EvLink b n r # trace s\<rparr>))"

definition do_unlink :: "ibinder \<Rightarrow> notifier \<Rightarrow> epm \<Rightarrow> epm" where
  "do_unlink b n s = s\<lparr>trace := EvUnlink b n # trace s\<rparr>"

definition ensure_open :: "epm_env \<Rightarrow> epm \<Rightarrow> (i32 + unit) \<times> epm" where
  "ensure_open E s =
     (if is_neg (nq_node s) then
        let (fd, s) = do_open E s; s = s\<lparr>nq_node := fd\<rparr>
        in if is_neg fd then (Inl fd, s) else (Inr (), s)
      else (Inr (), s))"

subsection \<open>Binding check\<close>

definition ESE_BINDING_RIGHT :: i32 where "ESE_BINDING_RIGHT = 0"
definition ESE_NO_BINDING_RELATION :: i32 where "ESE_NO_BINDING_RELATION = 1"
definition ESE_COMMUNICATION_ERROR :: i32 where "ESE_COMMUNICATION_ERROR = 2"
definition ESE_BINDING_ERROR :: i32 where "ESE_BINDING_ERROR = 3"

definition geteSEBindingStatus :: "epm_env \<Rightarrow> epm \<Rightarrow> i32 \<times> epm" where
  "geteSEBindingStatus E s = (let bind_status = fp_binding E (trace s)
     in (bind_status, s\<lparr>trace := EvBinding bind_status # trace s\<rparr>))"

definition isPowerOnAllowed :: "epm_env \<Rightarrow> epm \<Rightarrow> bool \<times> epm" where
  "isPowerOnAllowed E s =
     (if isFirstCalled s then (True, s\<lparr>isFirstCalled := False\<rparr>)
      else let (status, s) = geteSEBindingStatus E s
        in (\<not> (status \<noteq> ESE_BINDING_RIGHT \<and> status \<noteq> ESE_NO_BINDING_RELATION), s))"

definition isPidsMapEmpty :: "epm \<Rightarrow> bool" where
  "isPidsMapEmpty s \<longleftrightarrow> pm_is_empty (pidsMap s)"

subsection \<open>Operations\<close>

text \<open>\<open>getState\<close> opens the device if it is closed, and leaves it open.\<close>

definition getState :: "epm_env \<Rightarrow> epm \<Rightarrow> i32 \<times> epm" where
  "getState E s =
     (case ensure_open E s of
        (Inl fd, s) \<Rightarrow> (fd, s)
      | (Inr _, s) \<Rightarrow> (let ((ret, ese_current_state), s) = do_get_status E (- 1) s
          in (ese_current_state, s)))"

text \<open>The part of \<open>powerOn\<close> that brings the power up; \<open>Inl\<close> is an early return.\<close>

definition power_up :: "epm_env \<Rightarrow> epm \<Rightarrow> (i32 + unit) \<times> epm" where
  "power_up E s =
     (let ((ret, ese_current_state), s) = do_get_status E (- 1) s in
      if is_neg ret then (Inl ret, s)
      else if spi_in_use ese_current_state then (Inr (), s)
      else if fw_downloading ese_current_state then (Inl (- EBUSY), s)
      else let (ret, s) = do_ioctl E P61_SET_POWER_SCHEME 2 s in
        if is_neg ret then (Inl ret, s)
        else let (ret, s) = do_ioctl E P61_SET_SPM_PWR 1 s in
          if is_neg ret then (Inl ret, s) else (Inr (), s))"

text \<open>
  The entry of a client: a new one with count 1, or the old one with its count raised
  (\<open>client_threadCount++\<close> on the \<open>int32_t\<close> in the map); the old one keeps its callback.
\<close>

definition enrol :: "u32 \<Rightarrow> service_data \<Rightarrow> service_data pmap \<Rightarrow> service_data pmap" where
  "enrol pid data m = (case pm_find m pid of
     None \<Rightarrow> pm_insert pid (data\<lparr>client_threadCount := 1\<rparr>) m
   | Some d \<Rightarrow> pm_assign pid (d\<lparr>client_threadCount := client_threadCount d + 1\<rparr>) m)"

text \<open>
  The part of \<open>powerOn\<close> that registers the client.  Without a callback the power that was
  brought up is taken down again, unless another process uses it; a death link that fails
  returns at once.
\<close>

definition register_client :: "epm_env \<Rightarrow> u32 \<Rightarrow> ibinder option \<Rightarrow> epm \<Rightarrow> i32 \<times> epm" where
  "register_client E pid cb s =
     (let n = ClientDiedNotifier pid (next_obj s);
          s = s\<lparr>next_obj := next_obj s + 1\<rparr>;
          data = \<lparr>l_serviceCb = cb, l_deathNotifier = Some n, client_threadCount = 0\<rparr>
      in case cb of
        None \<Rightarrow>
          if isPidsMapEmpty s then
            let (ret, s) = do_ioctl E P61_SET_SPM_PWR 0 s
            in if is_neg ret then (ret, s) else (- 1, close_node E s)
          else (- 1, s)
      | Some b \<Rightarrow>
          let (ltdStat, s) = do_link E b n s in
          if ltdStat \<noteq> NO_ERROR then (- 1, s)
          else (1, s\<lparr>pidsMap := enrol pid data (pidsMap s)\<rparr>))"

text \<open>
  \<open>powerOn\<close>.  The binding check comes before the uid check, and the log line of a refused
  call evaluates \<open>getState()\<close>.
\<close>

definition powerOn :: "epm_env \<Rightarrow> caller \<Rightarrow> ibinder option \<Rightarrow> epm \<Rightarrow> i32 \<times> epm" where
  "powerOn E c notifier s =
     (let (allowed, s) = isPowerOnAllowed E s in
      if \<not> allowed then (PERMISSION_DENIED, snd (getState E s))
      else if bad_uid (calling_uid c) then (PERMISSION_DENIED, s)
      else case ensure_open E s of
        (Inl fd, s) \<Rightarrow> (fd, s)
      | (Inr _, s) \<Rightarrow>
          (case power_up E s of
             (Inl ret, s) \<Rightarrow> (ret, s)
           | (Inr _, s) \<Rightarrow> register_client E (calling_pid c) notifier s))"

text \<open>The end of \<open>powerOff\<close>, once no process is registered any more.\<close>

definition power_down :: "epm_env \<Rightarrow> epm \<Rightarrow> i32 \<times> epm" where
  "power_down E s =
     (if is_neg (nq_node s) then (0, s)
      else let ((ret, ese_current_state), s) = do_get_status E (- 1) s in
        if fw_downloading ese_current_state then (- EBUSY, s)
        else let (ret, s) = do_ioctl E P61_SET_SPM_PWR 0 s in
          if is_neg ret then (ret, s) else (0, close_node E s))"

definition unlink_client :: "service_data \<Rightarrow> epm \<Rightarrow> epm" where
  "unlink_client d s = (case (l_serviceCb d, l_deathNotifier d) of
     (Some b, Some n) \<Rightarrow> do_unlink b n s | _ \<Rightarrow> s)"

definition powerOff :: "epm_env \<Rightarrow> caller \<Rightarrow> epm \<Rightarrow> i32 \<times> epm" where
  "powerOff E c s =
     (let pid = calling_pid c in
      if bad_uid (calling_uid c) then (PERMISSION_DENIED, s)
      else case pm_find (pidsMap s) pid of
        None \<Rightarrow> (- 1, s)
      | Some d \<Rightarrow>
          let s = unlink_client d s;
              d = d\<lparr>client_threadCount := client_threadCount d - 1\<rparr>;
              s = s\<lparr>pidsMap := pm_assign pid d (pidsMap s)\<rparr>
          in if is_pos (client_threadCount d) then (1, s)
             else let s = s\<lparr>pidsMap := pm_erase pid (pidsMap s)\<rparr>
               in if \<not> isPidsMapEmpty s then (1, s) else power_down E s)"

definition killall :: "epm_env \<Rightarrow> caller \<Rightarrow> epm \<Rightarrow> i32 \<times> epm" where
  "killall E c s =
     (if bad_uid (calling_uid c) then (PERMISSION_DENIED, s)
      else let s = fold (\<lambda>(_, d). unlink_client d) (pidsMap s) s;
               s = s\<lparr>pidsMap := pm_empty\<rparr>
        in case ensure_open E s of
          (Inl fd, s) \<Rightarrow> (fd, s)
        | (Inr _, s) \<Rightarrow>
            (let ((ret, ese_current_state), s) = do_get_status E (- 1) s in
             if fw_downloading ese_current_state then (- EBUSY, s)
             else let (ret, s) = do_ioctl E P61_SET_SPM_PWR 0 s
               in if is_neg ret then (ret, s) else (ret, close_node E s)))"

text \<open>\<open>ClientDiedNotifier::binderDied\<close>: the power goes off, the device stays open.\<close>

definition binderDied :: "epm_env \<Rightarrow> notifier \<Rightarrow> epm \<Rightarrow> epm" where
  "binderDied E n s =
     (let s = s\<lparr>pidsMap := pm_erase (mPid n) (pidsMap s)\<rparr> in
      if \<not> isPidsMapEmpty s then s
      else if is_neg (nq_node s) then s
      else snd (do_ioctl E P61_SET_SPM_PWR 0 s))"

end
