(* ===== verification/PowerInvariants.thy ===== *)
theory PowerInvariants
  imports PowerManager
begin

text \<open>
  The power daemon as a step relation over its requests, the states it can reach, the
  interface \<open>call_relation\<close> for relations that every call respects, and the discipline on the
  device descriptor.
\<close>

subsection \<open>Reading the log\<close>

text \<open>The descriptor that is open after a log, and whether every call of a log used the one open then.\<close>

fun open_fd :: "event list \<Rightarrow> i32" where
  "open_fd [] = - 1"
| "open_fd (EvOpen _ r # tr) = r"
| "open_fd (EvClose _ r # tr) = (if r = 0 then - 1 else open_fd tr)"
| "open_fd (_ # tr) = open_fd tr"

fun fd_ok :: "event list \<Rightarrow> bool" where
  "fd_ok [] \<longleftrightarrow> True"
| "fd_ok (EvOpen _ _ # tr) \<longleftrightarrow> is_neg (open_fd tr) \<and> fd_ok tr"
| "fd_ok (EvIoctl fd _ _ _ # tr) \<longleftrightarrow> fd = open_fd tr \<and> \<not> is_neg fd \<and> fd_ok tr"
| "fd_ok (EvGetStatus fd _ _ # tr) \<longleftrightarrow> fd = open_fd tr \<and> \<not> is_neg fd \<and> fd_ok tr"
| "fd_ok (EvClose fd _ # tr) \<longleftrightarrow> fd = open_fd tr \<and> \<not> is_neg fd \<and> fd_ok tr"
| "fd_ok (_ # tr) \<longleftrightarrow> fd_ok tr"

text \<open>Whether the last power request the driver accepted was to switch on.\<close>

fun powered :: "event list \<Rightarrow> bool" where
  "powered [] = False"
| "powered (EvIoctl _ P61_SET_SPM_PWR arg r # tr) = (if is_neg r then powered tr else arg = 1)"
| "powered (_ # tr) = powered tr"

text \<open>The death links that are still in place.\<close>

fun live_links :: "event list \<Rightarrow> (ibinder \<times> notifier) list" where
  "live_links [] = []"
| "live_links (EvLink b n r # tr) = (if r = NO_ERROR then (b, n) # live_links tr else live_links tr)"
| "live_links (EvUnlink b n # tr) = filter (\<lambda>l. l \<noteq> (b, n)) (live_links tr)"
| "live_links (_ # tr) = live_links tr"

subsection \<open>Steps\<close>

datatype request =
    ReqPowerOn caller "ibinder option"
  | ReqPowerOff caller
  | ReqGetState
  | ReqKillall caller
  | ReqBindingStatus
  | ReqDied notifier

inductive epm_step :: "epm_env \<Rightarrow> epm \<Rightarrow> request \<Rightarrow> i32 \<Rightarrow> epm \<Rightarrow> bool" for E where
  on: "powerOn E c cb s = (ret, s') \<Longrightarrow> epm_step E s (ReqPowerOn c cb) ret s'"
| off: "powerOff E c s = (ret, s') \<Longrightarrow> epm_step E s (ReqPowerOff c) ret s'"
| state: "getState E s = (ret, s') \<Longrightarrow> epm_step E s ReqGetState ret s'"
| kill: "killall E c s = (ret, s') \<Longrightarrow> epm_step E s (ReqKillall c) ret s'"
| binding: "geteSEBindingStatus E s = (ret, s') \<Longrightarrow> epm_step E s ReqBindingStatus ret s'"
| died: "binderDied E n s = s' \<Longrightarrow> epm_step E s (ReqDied n) 0 s'"

inductive_simps epm_step_simps [simp]:
  "epm_step E s (ReqPowerOn c cb) ret s'"
  "epm_step E s (ReqPowerOff c) ret s'"
  "epm_step E s ReqGetState ret s'"
  "epm_step E s (ReqKillall c) ret s'"
  "epm_step E s ReqBindingStatus ret s'"
  "epm_step E s (ReqDied n) ret s'"

text \<open>States reached after a given number of requests, in any order, from any callers.\<close>

inductive reaches :: "epm_env \<Rightarrow> nat \<Rightarrow> epm \<Rightarrow> bool" for E where
  start: "reaches E 0 epm_init"
| step: "reaches E n s \<Longrightarrow> epm_step E s r ret s' \<Longrightarrow> reaches E (Suc n) s'"

lemma reaches_invariant:
  assumes "reaches E n s" and "P epm_init"
    and "\<And>s r ret s'. P s \<Longrightarrow> epm_step E s r ret s' \<Longrightarrow> P s'"
  shows "P s"
  using assms by (induction rule: reaches.induct) blast+

lemma epm_step_cases:
  assumes "epm_step E s r ret s'"
    and "\<And>c cb. P (snd (powerOn E c cb s))" and "\<And>c. P (snd (powerOff E c s))"
    and "P (snd (getState E s))" and "\<And>c. P (snd (killall E c s))"
    and "P (snd (geteSEBindingStatus E s))" and "\<And>n. P (binderDied E n s)"
  shows "P s'"
  using assms by (induction rule: epm_step.induct) (metis snd_conv)+

lemmas call_defs = do_open_def do_ioctl_def do_get_status_def close_node_def do_link_def do_unlink_def

subsection \<open>Relations that every call respects\<close>

text \<open>
  A preorder on states that every call to the environment and every assignment to a field
  respects relates the states before and after every request.
\<close>

locale call_relation =
  fixes E :: epm_env and R :: "epm \<Rightarrow> epm \<Rightarrow> bool"
  assumes R_refl: "R s s"
    and R_trans: "R s t \<Longrightarrow> R t u \<Longrightarrow> R s u"
    and R_open: "R s (snd (do_open E s))"
    and R_status: "R s (snd (do_get_status E i s))"
    and R_scheme: "R s (snd (do_ioctl E P61_SET_POWER_SCHEME a s))"
    and R_switch: "a = 0 \<or> a = 1 \<Longrightarrow> R s (snd (do_ioctl E P61_SET_SPM_PWR a s))"
    and R_close: "R s (close_node E s)"
    and R_link: "R s (snd (do_link E b n s))"
    and R_unlink: "R s (do_unlink b n s)"
    and R_binding: "R s (snd (geteSEBindingStatus E s))"
    and R_node: "R s (s\<lparr>nq_node := fd\<rparr>)"
    and R_pids: "R s (s\<lparr>pidsMap := m\<rparr>)"
    and R_first: "R s (s\<lparr>isFirstCalled := f\<rparr>)"
    and R_obj: "R s (s\<lparr>next_obj := k\<rparr>)"
begin

text \<open>Backward rules: the state on the right was produced by this call from an earlier one.\<close>

lemma rel_calls:
  "do_open E t = (x, s') \<Longrightarrow> R s t \<Longrightarrow> R s s'"
  "do_get_status E i t = (y, s') \<Longrightarrow> R s t \<Longrightarrow> R s s'"
  "do_ioctl E P61_SET_POWER_SCHEME a t = (x, s') \<Longrightarrow> R s t \<Longrightarrow> R s s'"
  "do_ioctl E P61_SET_SPM_PWR 0 t = (x, s') \<Longrightarrow> R s t \<Longrightarrow> R s s'"
  "do_ioctl E P61_SET_SPM_PWR 1 t = (x, s') \<Longrightarrow> R s t \<Longrightarrow> R s s'"
  "do_link E b n t = (x, s') \<Longrightarrow> R s t \<Longrightarrow> R s s'"
  "geteSEBindingStatus E t = (x, s') \<Longrightarrow> R s t \<Longrightarrow> R s s'"
  using R_open [of t] R_status [of t i] R_scheme [of t a] R_switch [of 0 t] R_switch [of 1 t]
    R_link [of t b n] R_binding [of t] R_trans [of s t s']
  by auto

lemma rel_fields:
  "R s t \<Longrightarrow> R s (t\<lparr>nq_node := fd\<rparr>)" "R s t \<Longrightarrow> R s (t\<lparr>pidsMap := m\<rparr>)"
  "R s t \<Longrightarrow> R s (t\<lparr>isFirstCalled := f\<rparr>)" "R s t \<Longrightarrow> R s (t\<lparr>next_obj := k\<rparr>)"
  "R s t \<Longrightarrow> R s (close_node E t)" "R s t \<Longrightarrow> R s (do_unlink b n t)"
  using R_trans [of s t] R_node R_pids R_first R_obj R_close R_unlink by blast+

lemmas rel_back = R_refl rel_calls rel_fields

lemma rel_ensure_open: "ensure_open E t = (x, s') \<Longrightarrow> R s t \<Longrightarrow> R s s'"
  by (auto simp: ensure_open_def Let_def split: if_splits prod.splits intro: rel_back)

lemma rel_getState: "getState E t = (x, s') \<Longrightarrow> R s t \<Longrightarrow> R s s'"
  by (auto simp: getState_def split: prod.splits sum.splits intro: rel_ensure_open rel_back)

lemma rel_allowed: "isPowerOnAllowed E t = (x, s') \<Longrightarrow> R s t \<Longrightarrow> R s s'"
  by (auto simp: isPowerOnAllowed_def split: if_splits prod.splits intro: rel_back)

lemma rel_power_up: "power_up E t = (x, s') \<Longrightarrow> R s t \<Longrightarrow> R s s'"
  by (auto simp: power_up_def split: prod.splits if_splits) (blast intro: rel_back)+

lemma rel_register: "register_client E pid cb t = (x, s') \<Longrightarrow> R s t \<Longrightarrow> R s s'"
  by (auto simp: register_client_def Let_def split: option.splits prod.splits if_splits)
    (blast intro: rel_back)+

lemma rel_powerOn: "powerOn E c cb t = (x, s') \<Longrightarrow> R s t \<Longrightarrow> R s s'"
  by (auto simp: powerOn_def split: prod.splits sum.splits if_splits)
    (blast intro: rel_allowed rel_ensure_open rel_power_up rel_register
      rel_getState [OF prod.collapse [symmetric]])+

lemma rel_unlink: "R s t \<Longrightarrow> R s (unlink_client d t)"
  by (auto simp: unlink_client_def intro: rel_back split: option.splits)

lemma rel_unlink_all: "R s t \<Longrightarrow> R s (fold (\<lambda>(_, d). unlink_client d) m t)"
  by (induction m arbitrary: t) (auto intro: rel_unlink)

lemma rel_power_down: "power_down E t = (x, s') \<Longrightarrow> R s t \<Longrightarrow> R s s'"
  by (auto simp: power_down_def split: prod.splits if_splits) (blast intro: rel_back)+

lemma rel_powerOff: "powerOff E c t = (x, s') \<Longrightarrow> R s t \<Longrightarrow> R s s'"
  by (auto simp: powerOff_def Let_def split: option.splits if_splits)
    (blast intro: rel_unlink rel_fields rel_power_down)+

lemma rel_killall:
  assumes "killall E c t = (x, s')" and "R s t"
  shows "R s s'"
proof -
  have "R s (fold (\<lambda>(_, d). unlink_client d) (pidsMap t) t\<lparr>pidsMap := pm_empty\<rparr>)"
    using assms(2) by (intro rel_fields rel_unlink_all)
  with assms show ?thesis
    by (auto simp: killall_def Let_def split: prod.splits sum.splits if_splits)
      (blast intro: rel_ensure_open rel_back)+
qed

lemma rel_died: "R s (binderDied E n s)"
  by (auto simp: binderDied_def Let_def intro: rel_back rel_calls [OF prod.collapse [symmetric]])

lemma step_rel: "epm_step E s r ret s' \<Longrightarrow> R s s'"
  by (induction rule: epm_step.induct)
    (auto intro: rel_powerOn rel_powerOff rel_getState rel_killall rel_back simp: rel_died)

end

subsection \<open>A concrete run\<close>

text \<open>
  An environment in which every call succeeds and the status tells the truth, a client, and
  the state after its first \<open>powerOn\<close>.
\<close>

definition good_env :: epm_env where
  "good_env = \<lparr>sys_open = (\<lambda>_ _. 3), sys_ioctl = (\<lambda>_ _ _ _. 0),
     sys_get_status = (\<lambda>tr _. (0, Some (if powered tr then 0x0400 else 0x0100))),
     sys_close = (\<lambda>_ _. 0), link_to_death = (\<lambda>_ _ _. 0), fp_binding = (\<lambda>_. 0)\<rparr>"

definition some_client :: caller where
  "some_client = \<lparr>calling_uid = 1000, calling_pid = 42\<rparr>"

definition after_on :: epm where
  "after_on = \<lparr>nq_node = 3,
     pidsMap = [(42, \<lparr>l_serviceCb = Some 7, l_deathNotifier = Some (ClientDiedNotifier 42 0),
       client_threadCount = 1\<rparr>)],
     isFirstCalled = False, next_obj = 1,
     trace = [EvLink 7 (ClientDiedNotifier 42 0) 0, EvIoctl 3 P61_SET_SPM_PWR 1 0,
       EvIoctl 3 P61_SET_POWER_SCHEME 2 0, EvGetStatus 3 0 (Some 0x0100), EvOpen nfc_dev_node 3]\<rparr>"

lemma uid_some_client [simp]: "calling_pid some_client = 42" "\<not> bad_uid (calling_uid some_client)"
  by (simp_all add: some_client_def bad_uid_def c_rem_def SYSTEM_UID_def)

lemma first_on: "powerOn good_env some_client (Some 7) epm_init = (1, after_on)"
  by (simp add: powerOn_def isPowerOnAllowed_def epm_init_def ensure_open_def call_defs
      power_up_def register_client_def good_env_def spi_in_use_def fw_downloading_def Let_def
      after_on_def NO_ERROR_def enrol_def pm_find_def pm_empty_def)

lemma reaches_after_on: "reaches good_env 1 after_on"
  using reaches.step [OF reaches.start, of good_env "ReqPowerOn some_client (Some 7)" 1 after_on]
    first_on by simp

text \<open>The log only grows: the answers of the environment may depend on all of the past.\<close>

definition log_extends :: "epm \<Rightarrow> epm \<Rightarrow> bool" where
  "log_extends s s' \<longleftrightarrow> (\<exists>evs. trace s' = evs @ trace s)"

lemma log_extends_Cons: "trace s' = e # trace s \<Longrightarrow> log_extends s s'"
  by (auto simp: log_extends_def)

lemma log_extends_same: "trace s' = trace s \<Longrightarrow> log_extends s s'"
  by (simp add: log_extends_def)

interpretation log: call_relation E log_extends for E
  by unfold_locales
    (auto simp: call_defs geteSEBindingStatus_def Let_def split: prod.splits
      intro: log_extends_Cons log_extends_same, auto simp: log_extends_def)

subsection \<open>The descriptor\<close>

definition fd_inv :: "epm \<Rightarrow> bool" where
  "fd_inv s \<longleftrightarrow> nq_node s = open_fd (trace s) \<and> fd_ok (trace s)"

lemma fd_inv_init: "fd_inv epm_init"
  by (simp add: fd_inv_def epm_init_def)

lemma fd_inv_upd [simp]:
  "fd_inv (s\<lparr>pidsMap := m\<rparr>) = fd_inv s"
  "fd_inv (s\<lparr>isFirstCalled := b\<rparr>) = fd_inv s"
  "fd_inv (s\<lparr>next_obj := k\<rparr>) = fd_inv s"
  by (simp_all add: fd_inv_def)

lemma fd_inv_ensure_open:
  "ensure_open E s = (x, s') \<Longrightarrow> fd_inv s \<Longrightarrow> fd_inv s' \<and> (x = Inr () \<longrightarrow> \<not> is_neg (nq_node s'))"
  by (auto simp: ensure_open_def fd_inv_def call_defs Let_def split: if_splits)

lemma fd_inv_get_status:
  "do_get_status E i s = (x, s') \<Longrightarrow> fd_inv s \<Longrightarrow> \<not> is_neg (nq_node s) \<Longrightarrow>
    fd_inv s' \<and> \<not> is_neg (nq_node s')"
  by (auto simp: fd_inv_def call_defs Let_def split: prod.splits)

lemma fd_inv_ioctl:
  "do_ioctl E cmd a s = (x, s') \<Longrightarrow> fd_inv s \<Longrightarrow> \<not> is_neg (nq_node s) \<Longrightarrow>
    fd_inv s' \<and> \<not> is_neg (nq_node s')"
  by (auto simp: fd_inv_def call_defs Let_def)

lemma fd_inv_link:
  "do_link E b n s = (x, s') \<Longrightarrow> fd_inv s \<Longrightarrow> fd_inv s'"
  by (auto simp: fd_inv_def call_defs Let_def)

lemma fd_inv_close: "fd_inv s \<Longrightarrow> \<not> is_neg (nq_node s) \<Longrightarrow> fd_inv (close_node E s)"
  by (auto simp: fd_inv_def call_defs Let_def)

lemma fd_inv_unlink: "fd_inv s \<Longrightarrow> fd_inv (unlink_client d s)"
  by (auto simp: fd_inv_def unlink_client_def call_defs split: option.splits)

lemma fd_inv_unlink_all: "fd_inv s \<Longrightarrow> fd_inv (fold (\<lambda>(_, d). unlink_client d) m s)"
  by (induction m arbitrary: s) (auto simp: fd_inv_unlink)

lemma fd_inv_getState:
  assumes "fd_inv s" shows "fd_inv (snd (getState E s))"
  using assms
  by (auto simp: getState_def split: prod.splits sum.splits
      dest!: fd_inv_ensure_open fd_inv_get_status)

lemma fd_inv_binding: "fd_inv s \<Longrightarrow> fd_inv (snd (geteSEBindingStatus E s))"
  by (auto simp: geteSEBindingStatus_def fd_inv_def Let_def)

lemma fd_inv_allowed: "isPowerOnAllowed E s = (x, s') \<Longrightarrow> fd_inv s \<Longrightarrow> fd_inv s'"
  using fd_inv_binding [of s E]
  by (auto simp: isPowerOnAllowed_def split: if_splits prod.splits)

lemma fd_inv_power_up:
  "power_up E s = (x, s') \<Longrightarrow> fd_inv s \<Longrightarrow> \<not> is_neg (nq_node s) \<Longrightarrow>
    fd_inv s' \<and> \<not> is_neg (nq_node s')"
  by (auto simp: power_up_def split: prod.splits if_splits dest!: fd_inv_get_status fd_inv_ioctl)

lemma fd_inv_register:
  "fd_inv s \<Longrightarrow> \<not> is_neg (nq_node s) \<Longrightarrow> fd_inv (snd (register_client E pid cb s))"
  by (auto simp: register_client_def Let_def split: prod.splits if_splits option.splits
      dest!: fd_inv_ioctl fd_inv_link intro!: fd_inv_close)

lemma fd_inv_powerOn:
  assumes "fd_inv s" shows "fd_inv (snd (powerOn E c cb s))"
proof -
  obtain ok s1 where a: "isPowerOnAllowed E s = (ok, s1)" by fastforce
  with assms have s1: "fd_inv s1" by (blast dest: fd_inv_allowed)
  obtain x s2 where o: "ensure_open E s1 = (x, s2)" by fastforce
  obtain y s3 where u: "power_up E s2 = (y, s3)" by fastforce
  from fd_inv_ensure_open [OF o s1] have s2: "fd_inv s2" "x = Inr () \<Longrightarrow> \<not> is_neg (nq_node s2)"
    by auto
  show ?thesis
    using a o u s1 s2 fd_inv_getState [OF s1, of E] fd_inv_power_up [OF u]
    by (auto simp: powerOn_def fd_inv_register split: sum.splits)
qed

lemma fd_inv_power_down: "fd_inv s \<Longrightarrow> fd_inv (snd (power_down E s))"
  by (auto simp: power_down_def split: prod.splits if_splits
      dest!: fd_inv_get_status fd_inv_ioctl intro!: fd_inv_close)

lemma fd_inv_powerOff: "fd_inv s \<Longrightarrow> fd_inv (snd (powerOff E c s))"
  by (auto simp: powerOff_def Let_def fd_inv_power_down fd_inv_unlink split: option.splits)

lemma fd_inv_killall:
  assumes "fd_inv s" shows "fd_inv (snd (killall E c s))"
proof -
  let ?s = "fold (\<lambda>(_, d). unlink_client d) (pidsMap s) s\<lparr>pidsMap := pm_empty\<rparr>"
  have "fd_inv ?s" using assms by (simp add: fd_inv_unlink_all)
  then show ?thesis
    using assms
    by (auto simp: killall_def Let_def split: prod.splits sum.splits if_splits
        dest!: fd_inv_ensure_open fd_inv_get_status fd_inv_ioctl intro!: fd_inv_close)
qed

lemma fd_inv_died: "fd_inv s \<Longrightarrow> fd_inv (binderDied E n s)"
  by (auto simp: binderDied_def Let_def fd_inv_def call_defs)

lemma fd_inv_step: "epm_step E s r ret s' \<Longrightarrow> fd_inv s \<Longrightarrow> fd_inv s'"
  by (erule epm_step_cases)
    (simp_all add: fd_inv_powerOn fd_inv_powerOff fd_inv_getState fd_inv_killall fd_inv_binding
      fd_inv_died)

text \<open>C15.  In every state the daemon can reach, whatever its environment answers,
  the descriptor it keeps is the one that is open, every ioctl and every close it has made
  was on the descriptor open at that moment, and it has never opened the device twice
  without closing it in between.\<close>

theorem reachable_descriptor:
  assumes "reaches E n s"
  shows "nq_node s = open_fd (trace s) \<and> fd_ok (trace s)"
proof -
  from assms have "fd_inv s"
    by (rule reaches_invariant) (simp_all add: fd_inv_init fd_inv_step)
  then show ?thesis by (simp add: fd_inv_def)
qed

lemma reachable_descriptor_witness:
  "nq_node after_on = open_fd (trace after_on) \<and> fd_ok (trace after_on)"
  using reachable_descriptor [OF reaches_after_on] .

end
