(* ===== verification/PowerRegistry.thy ===== *)
theory PowerRegistry
  imports PowerInvariants
begin

text \<open>
  The registry of the power daemon: its well-formedness, and its refinement to a ledger
  that only counts the uses each process has of the secure element.
\<close>

subsection \<open>Frames\<close>

text \<open>The calls to the environment leave the registry alone.\<close>

definition same_reg :: "epm \<Rightarrow> epm \<Rightarrow> bool" where
  "same_reg s s' \<longleftrightarrow> pidsMap s' = pidsMap s \<and> next_obj s' = next_obj s"

lemma same_reg_refl [simp]: "same_reg s s"
  by (simp add: same_reg_def)

lemma same_reg_trans: "same_reg s t \<Longrightarrow> same_reg t u \<Longrightarrow> same_reg s u"
  by (simp add: same_reg_def)

lemma reg_open: "do_open E s = (x, s') \<Longrightarrow> same_reg s s'"
  by (auto simp: same_reg_def call_defs Let_def)

lemma reg_ensure_open: "ensure_open E s = (x, s') \<Longrightarrow> same_reg s s'"
  by (auto simp: same_reg_def ensure_open_def call_defs Let_def split: if_splits)

lemma reg_get_status: "do_get_status E i s = (x, s') \<Longrightarrow> same_reg s s'"
  by (auto simp: same_reg_def call_defs Let_def split: prod.splits)

lemma reg_ioctl: "do_ioctl E cmd a s = (x, s') \<Longrightarrow> same_reg s s'"
  by (auto simp: same_reg_def call_defs Let_def)

lemma reg_link: "do_link E b n s = (x, s') \<Longrightarrow> same_reg s s'"
  by (auto simp: same_reg_def call_defs Let_def)

lemma reg_close: "same_reg s (close_node E s)"
  by (auto simp: same_reg_def call_defs Let_def)

lemma close_node_frame [simp]:
  "pidsMap (close_node E s) = pidsMap s" "next_obj (close_node E s) = next_obj s"
  using reg_close [of s E] by (simp_all add: same_reg_def)

lemma reg_unlink: "same_reg s (unlink_client d s)"
  by (auto simp: same_reg_def unlink_client_def call_defs split: option.splits)

lemma reg_binding: "geteSEBindingStatus E s = (x, s') \<Longrightarrow> same_reg s s'"
  by (auto simp: same_reg_def geteSEBindingStatus_def Let_def)

lemma reg_allowed: "isPowerOnAllowed E s = (x, s') \<Longrightarrow> same_reg s s'"
  by (auto simp: isPowerOnAllowed_def same_reg_def geteSEBindingStatus_def Let_def split: if_splits)

lemmas reg_calls = reg_open reg_ensure_open reg_get_status reg_ioctl reg_link

lemma reg_getState: "getState E s = (x, s') \<Longrightarrow> same_reg s s'"
  by (auto simp: getState_def split: prod.splits sum.splits dest!: reg_calls intro: same_reg_trans)

lemma reg_power_up: "power_up E s = (x, s') \<Longrightarrow> same_reg s s'"
  by (auto simp: power_up_def split: prod.splits if_splits dest!: reg_calls intro: same_reg_trans)

lemma reg_power_down: "power_down E s = (x, s') \<Longrightarrow> same_reg s s'"
  by (auto simp: power_down_def split: prod.splits if_splits dest!: reg_calls
      intro: same_reg_trans reg_close)

lemma reg_unlink_all: "same_reg s (fold (\<lambda>(_, d). unlink_client d) m s)"
  by (induction m arbitrary: s) (auto intro: same_reg_trans reg_unlink)

subsection \<open>What each operation does to the registry\<close>

definition new_data :: "u32 \<Rightarrow> ibinder \<Rightarrow> nat \<Rightarrow> service_data" where
  "new_data pid b k = \<lparr>l_serviceCb = Some b, l_deathNotifier = Some (ClientDiedNotifier pid k),
     client_threadCount = 0\<rparr>"

lemma register_client_registry:
  assumes "register_client E pid cb s = (ret, s')"
  shows "(\<exists>b. cb = Some b \<and> ret = 1 \<and> next_obj s' = next_obj s + 1 \<and>
            pidsMap s' = enrol pid (new_data pid b (next_obj s)) (pidsMap s)) \<or>
         (is_neg ret \<and> next_obj s' = next_obj s + 1 \<and> pidsMap s' = pidsMap s)"
  using assms
  by (auto simp: register_client_def new_data_def same_reg_def Let_def
      split: option.splits prod.splits if_splits
      dest!: reg_ioctl reg_link)

lemma powerOn_registry:
  assumes "powerOn E c cb s = (ret, s')"
  shows "(\<exists>b. cb = Some b \<and> ret = 1 \<and> \<not> bad_uid (calling_uid c) \<and> next_obj s' = next_obj s + 1 \<and>
            pidsMap s' = enrol (calling_pid c) (new_data (calling_pid c) b (next_obj s)) (pidsMap s)) \<or>
         (is_neg ret \<and> next_obj s \<le> next_obj s' \<and> pidsMap s' = pidsMap s)"
proof -
  obtain ok s1 where a: "isPowerOnAllowed E s = (ok, s1)" by fastforce
  obtain x s2 where o: "ensure_open E s1 = (x, s2)" by fastforce
  obtain y s3 where u: "power_up E s2 = (y, s3)" by fastforce
  have r: "same_reg s s1" "same_reg s s2" "same_reg s s3"
    using reg_allowed [OF a] reg_ensure_open [OF o] reg_power_up [OF u]
    by (auto intro: same_reg_trans)
  have g: "same_reg s (snd (getState E s1))"
    using r(1) reg_getState [of E s1 "fst (getState E s1)" "snd (getState E s1)"]
    by (auto intro: same_reg_trans)
  have x: "x = Inl fd \<Longrightarrow> is_neg fd" for fd
    using o by (auto simp: ensure_open_def Let_def split: prod.splits if_splits)
  have y: "y = Inl ret \<Longrightarrow> is_neg ret" for ret
    using u by (auto simp: power_up_def split: prod.splits if_splits)
  show ?thesis
    using assms a o u r g x y register_client_registry [of E "calling_pid c" cb s3 ret s']
    by (auto simp: powerOn_def same_reg_def split: if_splits sum.splits)
qed

text \<open>The entry of a client that gives one use back: lowered, or gone when none is left.\<close>

definition withdraw :: "u32 \<Rightarrow> service_data \<Rightarrow> service_data pmap \<Rightarrow> service_data pmap" where
  "withdraw pid d m = (let d = d\<lparr>client_threadCount := client_threadCount d - 1\<rparr>;
       m = pm_assign pid d m
     in if is_pos (client_threadCount d) then m else pm_erase pid m)"

lemma powerOff_registry:
  assumes "powerOff E c s = (ret, s')"
  shows "next_obj s' = next_obj s \<and>
    pidsMap s' = (if bad_uid (calling_uid c) then pidsMap s
      else case pm_find (pidsMap s) (calling_pid c) of None \<Rightarrow> pidsMap s
        | Some d \<Rightarrow> withdraw (calling_pid c) d (pidsMap s))"
proof (cases "pm_find (pidsMap s) (calling_pid c)")
  case None
  with assms show ?thesis by (auto simp: powerOff_def Let_def split: if_splits)
next
  case (Some d)
  with assms reg_unlink [of s d] show ?thesis
    by (auto simp: powerOff_def withdraw_def Let_def same_reg_def split: if_splits
        dest!: reg_power_down)
qed

lemma killall_registry:
  assumes "killall E c s = (ret, s')"
  shows "next_obj s' = next_obj s \<and>
    pidsMap s' = (if bad_uid (calling_uid c) then pidsMap s else pm_empty)"
  using assms reg_unlink_all [of s "pidsMap s"]
  by (auto simp: killall_def Let_def same_reg_def split: if_splits prod.splits sum.splits
      dest!: reg_calls)

lemma binderDied_registry:
  "next_obj (binderDied E n s) = next_obj s \<and>
   pidsMap (binderDied E n s) = pm_erase (mPid n) (pidsMap s)"
  by (auto simp: binderDied_def Let_def call_defs)

subsection \<open>Well-formedness\<close>

text \<open>
  An entry holds a callback and the death notifier of its own process, and a positive use
  count that has not passed the number of requests so far (so it has not overflowed).
\<close>

definition entry_ok :: "nat \<Rightarrow> nat \<Rightarrow> u32 \<Rightarrow> service_data \<Rightarrow> bool" where
  "entry_ok k fresh p d \<longleftrightarrow> l_serviceCb d \<noteq> None \<and>
     (\<exists>j < fresh. l_deathNotifier d = Some (ClientDiedNotifier p j)) \<and>
     1 \<le> sint (client_threadCount d) \<and> sint (client_threadCount d) \<le> int k"

definition map_ok :: "nat \<Rightarrow> nat \<Rightarrow> service_data pmap \<Rightarrow> bool" where
  "map_ok k fresh m \<longleftrightarrow> pm_inv m \<and> (\<forall>p d. pm_find m p = Some d \<longrightarrow> entry_ok k fresh p d)"

definition reg_inv :: "nat \<Rightarrow> epm \<Rightarrow> bool" where
  "reg_inv k s \<longleftrightarrow> map_ok k (next_obj s) (pidsMap s)"

lemma entry_ok_mono: "entry_ok k fresh p d \<Longrightarrow> k \<le> k' \<Longrightarrow> fresh \<le> fresh' \<Longrightarrow> entry_ok k' fresh' p d"
  by (fastforce simp: entry_ok_def)

lemma map_ok_mono: "map_ok k fresh m \<Longrightarrow> k \<le> k' \<Longrightarrow> fresh \<le> fresh' \<Longrightarrow> map_ok k' fresh' m"
  by (auto simp: map_ok_def intro: entry_ok_mono)

lemma map_ok_Suc: "map_ok k fresh m \<Longrightarrow> fresh \<le> fresh' \<Longrightarrow> map_ok (Suc k) fresh' m"
  by (erule map_ok_mono) simp_all

lemma map_ok_empty: "map_ok k fresh pm_empty"
  by (simp add: map_ok_def pm.inv_empty pm.find_empty)

lemma map_okD: "map_ok k fresh m \<Longrightarrow> pm_find m p = Some d \<Longrightarrow> entry_ok k fresh p d"
  by (simp add: map_ok_def)

lemma map_ok_assign:
  "map_ok k fresh m \<Longrightarrow> entry_ok k fresh p d \<Longrightarrow> map_ok k fresh (pm_assign p d m)"
  by (auto simp: map_ok_def pm.inv_assign pm.find_assign)

lemma map_ok_insert:
  "map_ok k fresh m \<Longrightarrow> entry_ok k fresh p d \<Longrightarrow> map_ok k fresh (pm_insert p d m)"
  using pm.all_insert [of m "entry_ok k fresh" p d] by (auto simp: map_ok_def pm.inv_insert)

lemma map_ok_erase: "map_ok k fresh m \<Longrightarrow> map_ok k fresh (pm_erase p m)"
  by (auto simp: map_ok_def pm.inv_erase pm.find_erase)

lemma map_ok_enrol:
  assumes "map_ok k fresh m" and "k < 2 ^ 31 - 1"
  shows "map_ok (Suc k) (fresh + 1) (enrol p (new_data p b fresh) m)"
proof -
  from assms(1) have m: "map_ok (Suc k) (fresh + 1) m" by (rule map_ok_mono) auto
  show ?thesis
  proof (cases "pm_find m p")
    case None
    have "entry_ok (Suc k) (fresh + 1) p (new_data p b fresh\<lparr>client_threadCount := 1\<rparr>)"
      by (simp add: entry_ok_def new_data_def)
    with m None show ?thesis by (simp add: enrol_def map_ok_insert)
  next
    case (Some d)
    with assms(1) have d: "entry_ok k fresh p d" by (rule map_okD)
    with assms(2) have "sint (client_threadCount d + 1) = sint (client_threadCount d) + 1"
      by (intro sint_inc) (simp add: entry_ok_def)
    with d have "entry_ok (Suc k) (fresh + 1) p
        (d\<lparr>client_threadCount := client_threadCount d + 1\<rparr>)"
      by (fastforce simp: entry_ok_def)
    with m Some show ?thesis by (simp add: enrol_def map_ok_assign)
  qed
qed

lemma withdraw_eq:
  assumes "pm_inv m" and "1 \<le> sint (client_threadCount d)"
  shows "withdraw p d m = (if 1 < sint (client_threadCount d)
     then pm_assign p (d\<lparr>client_threadCount := client_threadCount d - 1\<rparr>) m
     else pm_erase p (pm_assign p (d\<lparr>client_threadCount := client_threadCount d - 1\<rparr>) m))"
  using assms(2) sint_dec [of "client_threadCount d"]
  by (simp add: withdraw_def is_pos_def Let_def)

lemma map_ok_withdraw:
  assumes "map_ok k fresh m" and "pm_find m p = Some d"
  shows "map_ok k fresh (withdraw p d m)"
proof -
  from assms have d: "entry_ok k fresh p d" by (rule map_okD)
  have inv: "pm_inv m" using assms(1) by (simp add: map_ok_def)
  show ?thesis
  proof (cases "1 < sint (client_threadCount d)")
    case True
    with d have "entry_ok k fresh p (d\<lparr>client_threadCount := client_threadCount d - 1\<rparr>)"
      by (simp add: entry_ok_def sint_dec)
    with assms(1) d inv True show ?thesis
      by (simp add: withdraw_eq entry_ok_def map_ok_assign)
  next
    case False
    with assms(1) d inv show ?thesis
      by (auto simp: withdraw_eq entry_ok_def map_ok_def pm.inv_erase pm.inv_assign
          pm.find_erase pm.find_assign split: if_splits)
  qed
qed

lemma reg_inv_step:
  assumes "epm_step E s r ret s'" and "reg_inv k s" and "k < 2 ^ 31 - 1"
  shows "reg_inv (Suc k) s'"
  using assms
proof (induction rule: epm_step.induct)
  case (on c cb s ret s')
  then show ?case
    using powerOn_registry [OF on(1)] map_ok_enrol [of k "next_obj s" "pidsMap s"]
    by (auto simp: reg_inv_def intro: map_ok_Suc)
next
  case (off c s ret s')
  then show ?case
    using powerOff_registry [OF off(1)] map_ok_withdraw [of k "next_obj s" "pidsMap s"]
    by (auto simp: reg_inv_def split: if_splits option.splits intro: map_ok_Suc)
next
  case (kill c s ret s')
  then show ?case
    using killall_registry [OF kill(1)]
    by (auto simp: reg_inv_def map_ok_empty split: if_splits intro: map_ok_Suc)
next
  case (died n s s')
  then show ?case
    using binderDied_registry [of E n s]
    by (auto simp: reg_inv_def intro: map_ok_Suc map_ok_erase)
next
  case (state s ret s')
  then show ?case
    using reg_getState [OF state(1)] by (auto simp: reg_inv_def same_reg_def intro: map_ok_Suc)
next
  case (binding s ret s')
  then show ?case
    using reg_binding [OF binding(1)] by (auto simp: reg_inv_def same_reg_def intro: map_ok_Suc)
qed

lemma reaches_reg_inv: "reaches E n s \<Longrightarrow> n < 2 ^ 31 \<Longrightarrow> reg_inv n s"
proof (induction rule: reaches.induct)
  case start
  then show ?case by (simp add: reg_inv_def epm_init_def map_ok_empty)
next
  case (step n s r ret s')
  then show ?case by (intro reg_inv_step [of E s r ret s' n]) auto
qed

text \<open>C14.  After fewer than \<open>2^31\<close> requests the registry is well formed: its
  keys are increasing, and the entry of a process has a callback, a death notifier for that
  very process and a use count between 1 and the number of requests made.\<close>

theorem reachable_registry:
  assumes "reaches E n s" and "n < 2 ^ 31"
  shows "pm_inv (pidsMap s) \<and>
    (\<forall>p d. pm_find (pidsMap s) p = Some d \<longrightarrow>
       l_serviceCb d \<noteq> None \<and> (\<exists>j. l_deathNotifier d = Some (ClientDiedNotifier p j)) \<and>
       1 \<le> sint (client_threadCount d) \<and> sint (client_threadCount d) \<le> int n)"
  using reaches_reg_inv [OF assms] by (auto simp: reg_inv_def map_ok_def entry_ok_def)

lemma reachable_registry_witness:
  "pm_inv (pidsMap after_on) \<and>
    (\<exists>d. pm_find (pidsMap after_on) 42 = Some d \<and> sint (client_threadCount d) = 1)"
proof -
  have f: "pm_find (pidsMap after_on) 42 = Some (snd (hd (pidsMap after_on)))"
    by (simp add: after_on_def pm_find_def)
  with reachable_registry [OF reaches_after_on] show ?thesis by force
qed

subsection \<open>Refinement to a ledger of uses\<close>

type_synonym ledger = "u32 \<Rightarrow> nat"

definition ledger_of :: "epm \<Rightarrow> ledger" where
  "ledger_of s = (\<lambda>p. case pm_find (pidsMap s) p of None \<Rightarrow> 0
     | Some d \<Rightarrow> nat (sint (client_threadCount d)))"

text \<open>
  The promise to the clients: a \<open>powerOn\<close> that returned 1 is one more use of its process,
  a \<open>powerOff\<close> of a privileged caller is one less, the death of a process drops its uses,
  a privileged \<open>killall\<close> drops everybody's; nothing else counts.
\<close>

fun ledger_step :: "request \<Rightarrow> i32 \<Rightarrow> ledger \<Rightarrow> ledger" where
  "ledger_step (ReqPowerOn c cb) ret L =
     (if ret = 1 then L(calling_pid c := L (calling_pid c) + 1) else L)"
| "ledger_step (ReqPowerOff c) ret L =
     (if bad_uid (calling_uid c) then L else L(calling_pid c := L (calling_pid c) - 1))"
| "ledger_step (ReqKillall c) ret L = (if bad_uid (calling_uid c) then L else (\<lambda>_. 0))"
| "ledger_step (ReqDied n) ret L = L(mPid n := 0)"
| "ledger_step ReqGetState ret L = L"
| "ledger_step ReqBindingStatus ret L = L"

lemma ledger_cong: "pidsMap s' = pidsMap s \<Longrightarrow> ledger_of s' = ledger_of s"
  by (simp add: ledger_of_def)

lemma ledger_enrol:
  assumes "map_ok k fresh m" and "k < 2 ^ 31 - 1" and "pidsMap s = m"
    and "pidsMap s' = enrol p (new_data p b fresh) m"
  shows "ledger_of s' = (ledger_of s)(p := ledger_of s p + 1)"
proof (cases "pm_find m p")
  case None
  with assms show ?thesis
    by (simp add: ledger_of_def enrol_def pm.tally_insert_fresh map_ok_def)
next
  case (Some d)
  with assms(1) have d: "entry_ok k fresh p d" by (rule map_okD)
  with assms(2) have "sint (client_threadCount d + 1) = sint (client_threadCount d) + 1"
    by (intro sint_inc) (simp add: entry_ok_def)
  moreover have "1 \<le> sint (client_threadCount d)" using d by (simp add: entry_ok_def)
  ultimately show ?thesis
    using assms Some
    by (simp add: ledger_of_def enrol_def pm.tally_assign map_ok_def Suc_nat_eq_nat_zadd1 add.commute)
qed

lemma ledger_withdraw:
  assumes "map_ok k fresh m" and "pm_find m p = Some d" and "pidsMap s = m"
    and "pidsMap s' = withdraw p d m"
  shows "ledger_of s' = (ledger_of s)(p := ledger_of s p - 1)"
proof -
  from assms have d: "1 \<le> sint (client_threadCount d)" and inv: "pm_inv m"
    by (auto simp: map_ok_def entry_ok_def)
  then show ?thesis
    using assms(2-4)
    by (auto simp: ledger_of_def withdraw_eq pm.tally_assign pm.tally_erase pm.inv_assign
        sint_dec nat_diff_distrib fun_eq_iff pm.find_assign pm.find_erase)
qed

lemma ledger_step_refines:
  assumes "epm_step E s r ret s'" and "reg_inv k s" and "k < 2 ^ 31 - 1"
  shows "ledger_of s' = ledger_step r ret (ledger_of s)"
  using assms
proof (induction rule: epm_step.induct)
  case (on c cb s ret s')
  have "ret = 1 \<Longrightarrow> \<not> is_neg ret" by simp
  with on powerOn_registry [OF on(1)] show ?case
    using ledger_enrol [of k "next_obj s" "pidsMap s" s s']
    by (auto simp: reg_inv_def intro: ledger_cong)
next
  case (off c s ret s')
  note registry = powerOff_registry [OF off(1)]
  show ?case
  proof (cases "bad_uid (calling_uid c)")
    case True
    with registry show ?thesis by (auto intro: ledger_cong)
  next
    case allowed: False
    show ?thesis
    proof (cases "pm_find (pidsMap s) (calling_pid c)")
      case None
      with registry allowed have "ledger_of s' = ledger_of s" by (auto intro: ledger_cong)
      with None allowed show ?thesis by (auto simp: ledger_of_def fun_eq_iff)
    next
      case (Some d)
      with registry allowed off ledger_withdraw [of k "next_obj s" "pidsMap s" _ d s s']
      show ?thesis by (auto simp: reg_inv_def)
    qed
  qed
next
  case (kill c s ret s')
  with killall_registry [OF kill(1)] show ?case
    by (auto simp: ledger_of_def pm.find_empty)
next
  case (died n s s')
  with binderDied_registry [of E n s] show ?case
    by (auto simp: ledger_of_def reg_inv_def map_ok_def pm.tally_erase)
next
  case (state s ret s')
  with reg_getState [OF state(1)] show ?case by (auto simp: same_reg_def ledger_of_def)
next
  case (binding s ret s')
  with reg_binding [OF binding(1)] show ?case by (auto simp: same_reg_def ledger_of_def)
qed

text \<open>C1.  The daemon implements the ledger: from any state reached by fewer than
  \<open>2^31 - 1\<close> requests, every request changes the use count of every process exactly as the
  ledger says, given the value it returned.\<close>

theorem registry_refines_ledger:
  assumes "reaches E n s" and "n < 2 ^ 31 - 1" and "epm_step E s r ret s'"
  shows "ledger_of s' = ledger_step r ret (ledger_of s)"
proof -
  from assms(1,2) have "reg_inv n s" by (intro reaches_reg_inv) auto
  with assms(2,3) show ?thesis by (intro ledger_step_refines)
qed

lemma registry_refines_ledger_witness:
  "ledger_of (snd (powerOff good_env some_client after_on)) =
     ledger_step (ReqPowerOff some_client) (fst (powerOff good_env some_client after_on))
       (ledger_of after_on)"
  by (rule registry_refines_ledger [OF reaches_after_on]) simp_all

end
