(* ===== verification/PowerSafety.thy ===== *)
theory PowerSafety
  imports PowerRegistry
begin

text \<open>
  The power itself: it is never taken away from a registered process, a registered process
  has it when the driver reports it truthfully, and refused callers change nothing.
\<close>

subsection \<open>The power through the calls\<close>

fun off_requests :: "event list \<Rightarrow> nat" where
  "off_requests [] = 0"
| "off_requests (EvIoctl _ P61_SET_SPM_PWR arg _ # tr) =
     (if arg = 0 then Suc (off_requests tr) else off_requests tr)"
| "off_requests (_ # tr) = off_requests tr"

text \<open>The calls that do not touch the power switch keep its log.\<close>

definition same_power :: "epm \<Rightarrow> epm \<Rightarrow> bool" where
  "same_power s s' \<longleftrightarrow> powered (trace s') = powered (trace s) \<and>
     off_requests (trace s') = off_requests (trace s)"

lemma same_power_refl [simp]: "same_power s s"
  by (simp add: same_power_def)

lemma same_power_trans: "same_power s t \<Longrightarrow> same_power t u \<Longrightarrow> same_power s u"
  by (simp add: same_power_def)

lemma pow_ensure_open: "ensure_open E s = (x, s') \<Longrightarrow> same_power s s'"
  by (auto simp: same_power_def ensure_open_def call_defs Let_def split: if_splits)

lemma pow_get_status: "do_get_status E i s = (x, s') \<Longrightarrow> same_power s s'"
  by (auto simp: same_power_def call_defs Let_def split: prod.splits)

lemma pow_scheme: "do_ioctl E P61_SET_POWER_SCHEME a s = (x, s') \<Longrightarrow> same_power s s'"
  by (auto simp: same_power_def call_defs Let_def)

lemma pow_link: "do_link E b n s = (x, s') \<Longrightarrow> same_power s s'"
  by (auto simp: same_power_def call_defs Let_def)

lemma pow_close [simp]:
  "powered (trace (close_node E s)) = powered (trace s)"
  "off_requests (trace (close_node E s)) = off_requests (trace s)"
  by (auto simp: call_defs Let_def)

lemma pow_unlink: "same_power s (unlink_client d s)"
  by (auto simp: same_power_def unlink_client_def call_defs split: option.splits)

lemma pow_unlink_all: "same_power s (fold (\<lambda>(_, d). unlink_client d) m s)"
  by (induction m arbitrary: s) (auto intro: same_power_trans pow_unlink)

lemma pow_binding: "geteSEBindingStatus E s = (x, s') \<Longrightarrow> same_power s s'"
  by (auto simp: same_power_def geteSEBindingStatus_def Let_def)

lemma pow_allowed: "isPowerOnAllowed E s = (x, s') \<Longrightarrow> same_power s s'"
  by (auto simp: isPowerOnAllowed_def same_power_def geteSEBindingStatus_def Let_def split: if_splits)

lemma pow_getState: "getState E s = (x, s') \<Longrightarrow> same_power s s'"
  by (auto simp: getState_def split: prod.splits sum.splits dest!: pow_ensure_open pow_get_status
      intro: same_power_trans)

lemma pow_switch:
  "do_ioctl E P61_SET_SPM_PWR a s = (r, s') \<Longrightarrow>
     powered (trace s') = (if is_neg r then powered (trace s) else a = 1) \<and>
     off_requests (trace s') = off_requests (trace s) + (if a = 0 then 1 else 0)"
  by (auto simp: call_defs Let_def)

text \<open>Bringing the power up never asks for the power to go, and does not lose it.\<close>

lemma pow_power_up:
  assumes "power_up E s = (x, s')"
  shows "off_requests (trace s') = off_requests (trace s) \<and>
    (powered (trace s) \<longrightarrow> powered (trace s'))"
  using assms
  by (auto simp: power_up_def same_power_def split: prod.splits if_splits
      dest!: pow_get_status pow_scheme pow_switch)

subsection \<open>No process loses the power\<close>

lemma off_register:
  assumes "register_client E pid cb s = (ret, s')"
  shows "off_requests (trace s') = off_requests (trace s) \<or> pidsMap s' = []"
  using assms
  by (auto simp: register_client_def same_power_def same_reg_def isPidsMapEmpty_def pm_is_empty_def
      Let_def split: option.splits prod.splits if_splits dest: reg_ioctl pow_link)

lemma off_powerOn:
  assumes "powerOn E c cb s = (ret, s')"
  shows "off_requests (trace s') = off_requests (trace s) \<or> pidsMap s' = []"
proof -
  obtain ok s1 where a: "isPowerOnAllowed E s = (ok, s1)" by fastforce
  obtain x s2 where o: "ensure_open E s1 = (x, s2)" by fastforce
  obtain y s3 where u: "power_up E s2 = (y, s3)" by fastforce
  have "off_requests (trace s1) = off_requests (trace s)"
      "off_requests (trace s2) = off_requests (trace s)"
      "off_requests (trace s3) = off_requests (trace s)"
      "off_requests (trace (snd (getState E s1))) = off_requests (trace s)"
    using pow_allowed [OF a] pow_ensure_open [OF o] pow_power_up [OF u]
      pow_getState [of E s1 "fst (getState E s1)" "snd (getState E s1)"]
    by (auto simp: same_power_def)
  with assms a o u off_register [of E "calling_pid c" cb s3 ret s'] show ?thesis
    by (auto simp: powerOn_def split: if_splits sum.splits)
qed

lemma off_powerOff:
  assumes "powerOff E c s = (ret, s')"
  shows "off_requests (trace s') = off_requests (trace s) \<or> pidsMap s' = []"
proof (cases "pm_find (pidsMap s) (calling_pid c)")
  case None
  with assms show ?thesis by (auto simp: powerOff_def Let_def split: if_splits)
next
  case (Some d)
  with assms pow_unlink [of s d] show ?thesis
    by (auto simp: powerOff_def Let_def same_power_def isPidsMapEmpty_def pm_is_empty_def
        same_reg_def split: if_splits dest!: reg_power_down)
qed

lemma off_step:
  assumes "epm_step E s r ret s'"
  shows "off_requests (trace s') = off_requests (trace s) \<or> pidsMap s' = []"
  using assms
proof (induction rule: epm_step.induct)
  case (kill c s ret s')
  then show ?case
    using killall_registry [OF kill(1)] by (auto simp: killall_def pm_empty_def split: if_splits)
next
  case (died n s s')
  then show ?case
    by (auto simp: binderDied_def isPidsMapEmpty_def pm_is_empty_def call_defs Let_def)
qed (auto dest: off_powerOn off_powerOff pow_getState pow_binding simp: same_power_def)

text \<open>C7.  A request during which the daemon asks the driver to cut the power ends with
  no process registered: the power is never requested off while a process still holds it.\<close>

theorem no_power_off_while_registered:
  assumes "epm_step E s r ret s'" and "pidsMap s' \<noteq> []"
  shows "off_requests (trace s') = off_requests (trace s)"
  using off_step [OF assms(1)] assms(2) by blast

lemma no_power_off_while_registered_witness:
  "off_requests (trace after_on) = off_requests (trace epm_init)"
  by (rule no_power_off_while_registered [of good_env epm_init "ReqPowerOn some_client (Some 7)" 1])
    (simp_all add: first_on, simp add: after_on_def)

subsection \<open>A registered process has the power\<close>

definition no_loss :: "epm \<Rightarrow> epm \<Rightarrow> bool" where
  "no_loss s s' \<longleftrightarrow> off_requests (trace s) \<le> off_requests (trace s') \<and>
     (off_requests (trace s') = off_requests (trace s) \<longrightarrow> powered (trace s) \<longrightarrow> powered (trace s'))"

interpretation loss: call_relation E no_loss for E
  by unfold_locales
    (auto simp: no_loss_def call_defs geteSEBindingStatus_def Let_def split: prod.splits)

text \<open>
  What \<open>pn553.h\<close> and \<open>p73.h\<close> promise of the status request: it reports the current power
  state.  A status call that succeeds writes the state, and its SPI flags are set exactly
  when the last accepted power request was to switch on.
\<close>

definition driver_truthful :: "epm_env \<Rightarrow> bool" where
  "driver_truthful E \<longleftrightarrow> (\<forall>tr fd. \<not> is_neg (fst (sys_get_status E tr fd)) \<longrightarrow>
     (\<exists>v. snd (sys_get_status E tr fd) = Some v \<and> (spi_in_use v \<longleftrightarrow> powered tr)))"

lemma good_env_truthful: "driver_truthful good_env"
  by (simp add: driver_truthful_def good_env_def spi_in_use_def)

lemma power_up_powered:
  assumes "driver_truthful E" and "power_up E s = (Inr (), s')"
  shows "powered (trace s')"
proof -
  obtain r st where q: "sys_get_status E (trace s) (nq_node s) = (r, st)" by fastforce
  obtain r' v s1 where g: "do_get_status E (- 1) s = ((r', v), s1)" by (metis surj_pair)
  have "r' = r" "v = (case st of None \<Rightarrow> - 1 | Some w \<Rightarrow> w)" "powered (trace s1) = powered (trace s)"
    using q g by (auto simp: do_get_status_def)
  moreover have "\<not> is_neg r \<Longrightarrow> \<exists>w. st = Some w \<and> (spi_in_use w \<longleftrightarrow> powered (trace s))"
    using assms(1) q unfolding driver_truthful_def by (metis fst_conv snd_conv)
  ultimately have v: "\<not> is_neg r' \<Longrightarrow> spi_in_use v \<Longrightarrow> powered (trace s1)" by auto
  show ?thesis
    using assms(2) g v
    by (auto simp: power_up_def split: prod.splits if_splits dest!: pow_switch)
qed

lemma register_success:
  "register_client E pid cb s = (1, s') \<Longrightarrow> powered (trace s') = powered (trace s)"
  by (auto simp: register_client_def same_power_def Let_def
      split: option.splits prod.splits if_splits dest!: pow_link)

lemma powerOn_success_powered:
  assumes "driver_truthful E" and "powerOn E c cb s = (1, s')"
  shows "powered (trace s')"
proof -
  obtain ok s1 where a: "isPowerOnAllowed E s = (ok, s1)" by fastforce
  obtain x s2 where o: "ensure_open E s1 = (x, s2)" by fastforce
  obtain y s3 where u: "power_up E s2 = (y, s3)" by fastforce
  have x: "x = Inl fd \<Longrightarrow> is_neg fd" for fd
    using o by (auto simp: ensure_open_def Let_def split: prod.splits if_splits)
  have y: "y = Inl ret \<Longrightarrow> is_neg ret" for ret
    using u by (auto simp: power_up_def split: prod.splits if_splits)
  have "y = Inr () \<and> register_client E (calling_pid c) cb s3 = (1, s')"
    using assms(2) a o u x [of 1] y [of 1]
    by (auto simp: powerOn_def PERMISSION_DENIED_def split: if_splits sum.splits)
  with assms(1) u show ?thesis
    using register_success [of E "calling_pid c" cb s3 s'] power_up_powered [of E s2 s3] by auto
qed

lemma only_powerOn_registers:
  assumes "epm_step E s r ret s'" and "pidsMap s = []" and "pidsMap s' \<noteq> []"
  shows "\<exists>c cb. r = ReqPowerOn c cb \<and> ret = 1"
  using assms
proof (induction rule: epm_step.induct)
  case (on c cb s ret s')
  then show ?case using powerOn_registry [OF on(1)] by auto
next
  case (off c s ret s')
  then show ?case using powerOff_registry [OF off(1)] by (auto split: if_splits)
next
  case (kill c s ret s')
  then show ?case using killall_registry [OF kill(1)] by (auto simp: pm_empty_def split: if_splits)
next
  case (died n s s')
  then show ?case using binderDied_registry [of E n s] by auto
qed (auto dest!: reg_getState reg_binding simp: same_reg_def)

lemma power_inv_step:
  assumes "driver_truthful E" and "epm_step E s r ret s'"
    and "pidsMap s \<noteq> [] \<longrightarrow> powered (trace s)"
  shows "pidsMap s' \<noteq> [] \<longrightarrow> powered (trace s')"
proof
  assume reg: "pidsMap s' \<noteq> []"
  have off: "off_requests (trace s') = off_requests (trace s)"
    using off_step [OF assms(2)] reg by blast
  have loss: "no_loss s s'" using assms(2) by (rule loss.step_rel)
  show "powered (trace s')"
  proof (cases "pidsMap s = []")
    case False
    with assms(3) off loss show ?thesis by (auto simp: no_loss_def)
  next
    case True
    then obtain c cb where "r = ReqPowerOn c cb" and "ret = 1"
      using only_powerOn_registers [OF assms(2)] reg by blast
    with assms(1,2) show ?thesis by (auto dest: powerOn_success_powered)
  qed
qed

text \<open>C6.  When the driver reports its power state truthfully, the secure element is
  powered in every reachable state in which a process is registered.\<close>

theorem registered_implies_powered:
  assumes "driver_truthful E" and "reaches E n s" and "pidsMap s \<noteq> []"
  shows "powered (trace s)"
  using assms(2,3)
proof (induction rule: reaches.induct)
  case start
  then show ?case by (simp add: epm_init_def pm_empty_def)
next
  case (step n s r ret s')
  then show ?case using power_inv_step [OF assms(1) step(2)] by blast
qed

lemma registered_implies_powered_witness: "powered (trace after_on)"
  by (rule registered_implies_powered [OF good_env_truthful reaches_after_on])
    (simp add: after_on_def)

subsection \<open>Refused callers\<close>

text \<open>The callers admitted are root, system and radio of every Android user:
  a uid is refused exactly when its remainder by 100000 is none of 0, 1000 and 1001.\<close>

lemma bad_uid_iff:
  assumes "0 \<le> sint uid"
  shows "bad_uid uid \<longleftrightarrow> sint uid mod 100000 \<notin> {0, 1000, 1001}"
  by (auto simp: bad_uid_def user_part [OF assms] SYSTEM_UID_def ROOT_UID_def RADIO_UID_def Let_def)

lemma bad_uid_iff_witness: "\<not> bad_uid 1001000 \<and> bad_uid 10050"
  using bad_uid_iff [of 1001000] bad_uid_iff [of 10050] by simp

text \<open>C18.  A caller with a refused uid gets \<open>PERMISSION_DENIED\<close> from \<open>powerOn\<close>,
  \<open>powerOff\<close> and \<open>killall\<close>; the last two do nothing else, and the first registers
  nobody and makes no power request.\<close>

theorem refused_uid_changes_nothing:
  assumes "bad_uid (calling_uid c)"
  shows "powerOff E c s = (PERMISSION_DENIED, s) \<and> killall E c s = (PERMISSION_DENIED, s) \<and>
    fst (powerOn E c cb s) = PERMISSION_DENIED \<and>
    pidsMap (snd (powerOn E c cb s)) = pidsMap s \<and>
    powered (trace (snd (powerOn E c cb s))) = powered (trace s)"
proof -
  obtain ok s1 where a: "isPowerOnAllowed E s = (ok, s1)" by fastforce
  have g: "same_reg s1 (snd (getState E s1))" "same_power s1 (snd (getState E s1))"
    using reg_getState [of E s1] pow_getState [of E s1] by (metis prod.collapse)+
  from a assms have on: "powerOn E c cb s = (PERMISSION_DENIED, if ok then s1 else snd (getState E s1))"
    by (simp add: powerOn_def)
  with assms g reg_allowed [OF a] pow_allowed [OF a] show ?thesis
    by (auto simp: powerOff_def killall_def same_reg_def same_power_def)
qed

lemma refused_uid_changes_nothing_witness:
  "powerOff good_env \<lparr>calling_uid = 10050, calling_pid = 42\<rparr> after_on = (PERMISSION_DENIED, after_on)"
  using refused_uid_changes_nothing [of "\<lparr>calling_uid = 10050, calling_pid = 42\<rparr>" good_env after_on]
  by (simp add: bad_uid_def c_rem_def SYSTEM_UID_def ROOT_UID_def RADIO_UID_def)

text \<open>C17.  Once the daemon has served its first \<open>powerOn\<close>, the power is refused to
  everybody while the fingerprint application reports a broken binding: anything but
  \<open>ESE_BINDING_RIGHT\<close> and \<open>ESE_NO_BINDING_RELATION\<close>.\<close>

theorem binding_gate:
  assumes "\<not> isFirstCalled s"
    and "fp_binding E (trace s) \<notin> {ESE_BINDING_RIGHT, ESE_NO_BINDING_RELATION}"
  shows "fst (powerOn E c cb s) = PERMISSION_DENIED \<and>
    pidsMap (snd (powerOn E c cb s)) = pidsMap s \<and>
    powered (trace (snd (powerOn E c cb s))) = powered (trace s)"
proof -
  let ?s1 = "snd (geteSEBindingStatus E s)"
  from assms have "powerOn E c cb s = (PERMISSION_DENIED, snd (getState E ?s1))"
    by (simp add: powerOn_def isPowerOnAllowed_def geteSEBindingStatus_def Let_def)
  moreover have "same_reg ?s1 (snd (getState E ?s1))" "same_power ?s1 (snd (getState E ?s1))"
    using reg_getState [of E ?s1] pow_getState [of E ?s1] by (metis prod.collapse)+
  moreover have "same_reg s ?s1" "same_power s ?s1"
    using reg_binding [of E s] pow_binding [of E s] by (metis prod.collapse)+
  ultimately show ?thesis by (simp add: same_reg_def same_power_def)
qed

lemma binding_gate_witness:
  "fst (powerOn (good_env\<lparr>fp_binding := \<lambda>_. 3\<rparr>) some_client (Some 8) after_on) = PERMISSION_DENIED"
  using binding_gate [of after_on "good_env\<lparr>fp_binding := \<lambda>_. 3\<rparr>" some_client "Some 8"]
  by (simp add: after_on_def ESE_BINDING_RIGHT_def ESE_NO_BINDING_RELATION_def)

end
