(* ===== verification/PowerSessions.thy ===== *)
theory PowerSessions
  imports PowerSafety
begin

text \<open>
  Sessions of the power daemon with a cooperative environment: one process that powers on
  any number of times and off as often.
\<close>

subsection \<open>A cooperative environment\<close>

text \<open>
  Every call succeeds, the status is truthful and reports no firmware download, and the
  fingerprint application reports an acceptable binding.
\<close>

definition env_willing :: "epm_env \<Rightarrow> bool" where
  "env_willing E \<longleftrightarrow>
     (\<forall>tr p. \<not> is_neg (sys_open E tr p)) \<and>
     (\<forall>tr fd cmd a. \<not> is_neg (sys_ioctl E tr fd cmd a)) \<and>
     (\<forall>tr fd. \<exists>r v. sys_get_status E tr fd = (r, Some v) \<and> \<not> is_neg r \<and>
        \<not> fw_downloading v \<and> (spi_in_use v \<longleftrightarrow> powered tr)) \<and>
     (\<forall>tr fd. sys_close E tr fd = 0) \<and>
     (\<forall>tr b n. link_to_death E tr b n = NO_ERROR) \<and>
     (\<forall>tr. fp_binding E tr = ESE_BINDING_RIGHT \<or> fp_binding E tr = ESE_NO_BINDING_RELATION)"

lemma good_env_willing: "env_willing good_env"
  by (simp add: env_willing_def good_env_def fw_downloading_def spi_in_use_def
      NO_ERROR_def ESE_BINDING_RIGHT_def)

lemma willing_status:
  assumes "env_willing E"
  obtains r v where "do_get_status E i s = ((r, v), s\<lparr>trace := EvGetStatus (nq_node s) r (Some v) # trace s\<rparr>)"
    and "\<not> is_neg r" and "\<not> fw_downloading v" and "spi_in_use v \<longleftrightarrow> powered (trace s)"
proof -
  from assms obtain r v where "sys_get_status E (trace s) (nq_node s) = (r, Some v)"
    and "\<not> is_neg r" "\<not> fw_downloading v" "spi_in_use v \<longleftrightarrow> powered (trace s)"
    unfolding env_willing_def by metis
  then show thesis by (intro that [of r v]) (simp_all add: do_get_status_def)
qed

lemma willing_calls:
  assumes "env_willing E"
  shows "\<not> is_neg (fst (do_ioctl E cmd a s))" "\<not> is_neg (fst (do_open E s))"
    "fst (do_link E b n s) = NO_ERROR" "fst (isPowerOnAllowed E s)"
    "nq_node (close_node E s) = - 1"
  using assms
  by (auto simp: env_willing_def call_defs isPowerOnAllowed_def geteSEBindingStatus_def Let_def)

subsection \<open>One process, many uses\<close>

text \<open>The states in which one process holds \<open>k\<close> uses and nobody else any.\<close>

definition holds_only :: "u32 \<Rightarrow> nat \<Rightarrow> epm \<Rightarrow> bool" where
  "holds_only p k s \<longleftrightarrow>
     (if k = 0 then pidsMap s = []
      else powered (trace s) \<and> \<not> is_neg (nq_node s) \<and>
        (\<exists>d. pidsMap s = [(p, d)] \<and> sint (client_threadCount d) = int k))"

lemma allowed_frame:
  "isPowerOnAllowed E s = (ok, s1) \<Longrightarrow>
    nq_node s1 = nq_node s \<and> pidsMap s1 = pidsMap s \<and> powered (trace s1) = powered (trace s)"
  by (auto simp: isPowerOnAllowed_def geteSEBindingStatus_def Let_def split: if_splits)

lemma ensure_open_willing:
  "env_willing E \<Longrightarrow> ensure_open E s = (x, s') \<Longrightarrow>
    x = Inr () \<and> \<not> is_neg (nq_node s') \<and> pidsMap s' = pidsMap s \<and>
    powered (trace s') = powered (trace s)"
  by (auto simp: ensure_open_def do_open_def env_willing_def Let_def split: if_splits)

lemma power_up_willing:
  assumes "env_willing E" and "power_up E s = (x, s')"
  shows "x = Inr () \<and> nq_node s' = nq_node s \<and> pidsMap s' = pidsMap s \<and> powered (trace s')"
proof -
  obtain r v where g: "do_get_status E (- 1) s = ((r, v), s\<lparr>trace := EvGetStatus (nq_node s) r (Some v) # trace s\<rparr>)"
    "\<not> is_neg r" "\<not> fw_downloading v" "spi_in_use v \<longleftrightarrow> powered (trace s)"
    using willing_status [OF assms(1)] by metis
  with assms show ?thesis
    by (auto simp: power_up_def do_ioctl_def env_willing_def Let_def split: if_splits)
qed

lemma register_willing:
  assumes "env_willing E" and "holds_only p k s" and "\<not> is_neg (nq_node s)" and "powered (trace s)"
    and "k < 2 ^ 31 - 1"
  shows "\<exists>s'. register_client E p (Some b) s = (1, s') \<and> holds_only p (Suc k) s'"
proof -
  have inc: "sint (client_threadCount d) = int k \<Longrightarrow>
      sint (client_threadCount d + 1) = int (Suc k)" for d
    using assms(5) by (simp add: sint_inc)
  show ?thesis
    using assms inc
    by (auto simp: register_client_def do_link_def enrol_def holds_only_def Let_def env_willing_def
        split: if_splits)
qed

lemma on_willing:
  assumes "env_willing E" and "\<not> bad_uid (calling_uid c)" and "holds_only (calling_pid c) k s"
    and "k < 2 ^ 31 - 1"
  shows "\<exists>s'. powerOn E c (Some b) s = (1, s') \<and> holds_only (calling_pid c) (Suc k) s'"
proof -
  obtain ok s1 where a: "isPowerOnAllowed E s = (ok, s1)" by fastforce
  obtain x s2 where o: "ensure_open E s1 = (x, s2)" by fastforce
  obtain y s3 where u: "power_up E s2 = (y, s3)" by fastforce
  note facts = allowed_frame [OF a] ensure_open_willing [OF assms(1) o] power_up_willing [OF assms(1) u]
  have "holds_only (calling_pid c) k s3"
    using assms(3) facts by (auto simp: holds_only_def)
  then obtain s' where "register_client E (calling_pid c) (Some b) s3 = (1, s')"
    and "holds_only (calling_pid c) (Suc k) s'"
    using register_willing [OF assms(1)] facts assms(4) by metis
  moreover have ok using willing_calls(4) [OF assms(1), of s] a by simp
  ultimately show ?thesis
    using a o u facts assms(2) by (simp add: powerOn_def)
qed

lemma off_willing:
  assumes "env_willing E" and "\<not> bad_uid (calling_uid c)" and "holds_only (calling_pid c) (Suc k) s"
    and "Suc k < 2 ^ 31"
  shows "\<exists>s'. powerOff E c s = (if k = 0 then 0 else 1, s') \<and> holds_only (calling_pid c) k s' \<and>
    (k = 0 \<longrightarrow> nq_node s' = - 1 \<and> \<not> powered (trace s'))"
proof -
  let ?p = "calling_pid c"
  from assms(3) obtain d where d: "pidsMap s = [(?p, d)]" "sint (client_threadCount d) = int (Suc k)"
    "powered (trace s)" "\<not> is_neg (nq_node s)"
    by (auto simp: holds_only_def split: if_splits)
  have dec: "sint (client_threadCount d - 1) = int k"
    using d(2) by (simp add: sint_dec)
  define u where "u = unlink_client d s"
  have u: "pidsMap u = [(?p, d)]" "nq_node u = nq_node s" "powered (trace u)"
    using d by (auto simp: u_def unlink_client_def do_unlink_def split: option.splits)
  show ?thesis
  proof (cases "k = 0")
    case False
    with d u dec assms(2) show ?thesis
      by (auto simp: powerOff_def Let_def u_def [symmetric] is_pos_def holds_only_def)
  next
    case True
    let ?t = "u\<lparr>pidsMap := []\<rparr>"
    obtain r v where g: "do_get_status E (- 1) ?t =
        ((r, v), ?t\<lparr>trace := EvGetStatus (nq_node ?t) r (Some v) # trace ?t\<rparr>)"
      "\<not> is_neg r" "\<not> fw_downloading v"
      using willing_status [OF assms(1)] by metis
    then have "\<exists>s'. power_down E ?t = (0, s') \<and> pidsMap s' = [] \<and> nq_node s' = - 1 \<and>
        \<not> powered (trace s')"
      using assms(1) d u
      by (auto simp: power_down_def do_ioctl_def close_node_def env_willing_def Let_def)
    with True d u dec assms(2) show ?thesis
      by (auto simp: powerOff_def Let_def u_def [symmetric] is_pos_def holds_only_def
          isPidsMapEmpty_def pm_is_empty_def)
  qed
qed

fun power_ons :: "epm_env \<Rightarrow> caller \<Rightarrow> ibinder list \<Rightarrow> epm \<Rightarrow> i32 list \<times> epm" where
  "power_ons E c [] s = ([], s)"
| "power_ons E c (b # bs) s =
     (let (r, s) = powerOn E c (Some b) s; (rs, s) = power_ons E c bs s in (r # rs, s))"

fun power_offs :: "epm_env \<Rightarrow> caller \<Rightarrow> nat \<Rightarrow> epm \<Rightarrow> i32 list \<times> epm" where
  "power_offs E c 0 s = ([], s)"
| "power_offs E c (Suc n) s =
     (let (r, s) = powerOff E c s; (rs, s) = power_offs E c n s in (r # rs, s))"

lemma power_ons_willing:
  assumes "env_willing E" and "\<not> bad_uid (calling_uid c)"
  shows "holds_only (calling_pid c) k s \<Longrightarrow> k + length bs < 2 ^ 31 \<Longrightarrow>
    \<exists>s'. power_ons E c bs s = (replicate (length bs) 1, s') \<and>
      holds_only (calling_pid c) (k + length bs) s'"
proof (induction bs arbitrary: k s)
  case Nil
  then show ?case by simp
next
  case (Cons b bs)
  then obtain s1 where s1: "powerOn E c (Some b) s = (1, s1)" "holds_only (calling_pid c) (Suc k) s1"
    using on_willing [OF assms, of k s b] by auto
  then show ?case using Cons.IH [of "Suc k" s1] Cons.prems by auto
qed

lemma power_offs_willing:
  assumes "env_willing E" and "\<not> bad_uid (calling_uid c)"
  shows "holds_only (calling_pid c) (Suc k) s \<Longrightarrow> Suc k < 2 ^ 31 \<Longrightarrow>
    \<exists>s'. power_offs E c (Suc k) s = (replicate k 1 @ [0], s') \<and> pidsMap s' = [] \<and>
      nq_node s' = - 1 \<and> \<not> powered (trace s')"
proof (induction k arbitrary: s)
  case 0
  then show ?case
    using off_willing [OF assms, of 0 s] by (auto simp: holds_only_def)
next
  case (Suc k)
  then obtain s1 where s1: "powerOff E c s = (1, s1)" "holds_only (calling_pid c) (Suc k) s1"
    using off_willing [OF assms, of "Suc k" s] by auto
  then show ?case using Suc.IH [of s1] Suc.prems by auto
qed

text \<open>C16.  A session of one process: with a cooperative environment, any number of
  \<open>powerOn\<close> calls (below \<open>2^31\<close>) from a state with nobody registered all return 1 and leave
  the secure element on; as many \<open>powerOff\<close> calls then return 1, except the last, which
  returns 0, and the device ends off and closed with nobody registered.\<close>

theorem balanced_session:
  assumes "env_willing E" and "\<not> bad_uid (calling_uid c)" and "pidsMap s = []"
    and "bs \<noteq> []" and "length bs < 2 ^ 31"
  shows "\<exists>s1 s2. power_ons E c bs s = (replicate (length bs) 1, s1) \<and> powered (trace s1) \<and>
    power_offs E c (length bs) s1 = (replicate (length bs - 1) 1 @ [0], s2) \<and>
    pidsMap s2 = [] \<and> nq_node s2 = - 1 \<and> \<not> powered (trace s2)"
proof -
  obtain k where k: "length bs = Suc k" using assms(4) by (cases bs) auto
  have "holds_only (calling_pid c) 0 s" using assms(3) by (simp add: holds_only_def)
  then obtain s1 where s1: "power_ons E c bs s = (replicate (length bs) 1, s1)"
    "holds_only (calling_pid c) (Suc k) s1"
    using power_ons_willing [OF assms(1,2), of 0 s bs] assms(5) k by auto
  moreover have "powered (trace s1)" using s1(2) by (simp add: holds_only_def)
  ultimately show ?thesis
    using power_offs_willing [OF assms(1,2) s1(2)] assms(5) k by auto
qed

lemma balanced_session_witness:
  "\<exists>s1 s2. power_ons good_env some_client [7, 8] epm_init = ([1, 1], s1) \<and> powered (trace s1) \<and>
    power_offs good_env some_client (Suc (Suc 0)) s1 = ([1, 0], s2) \<and> pidsMap s2 = [] \<and> nq_node s2 = - 1 \<and>
    \<not> powered (trace s2)"
  using balanced_session [OF good_env_willing, of some_client epm_init "[7, 8]"]
  by (simp add: epm_init_def pm_empty_def del: power_ons.simps power_offs.simps)

end
