(* ===== verification/PowerExact.thy ===== *)
theory PowerExact
  imports PowerSessions
begin

text \<open>
  The power of the element against the registry, exactly: while the driver works and death
  links can be made, the element is powered precisely when some process is registered,
  whatever the callers do and whatever the binding, \<open>open\<close> and \<open>close\<close> answer.  The theory
  \<open>PowerFaults\<close> shows that each of the assumptions is needed.
\<close>

definition driver_works :: "epm_env \<Rightarrow> bool" where
  "driver_works E \<longleftrightarrow>
     (\<forall>tr fd cmd a. \<not> is_neg (sys_ioctl E tr fd cmd a)) \<and>
     (\<forall>tr fd. \<exists>r v. sys_get_status E tr fd = (r, Some v) \<and> \<not> is_neg r \<and>
        \<not> fw_downloading v \<and> (spi_in_use v \<longleftrightarrow> powered tr)) \<and>
     (\<forall>tr b n. link_to_death E tr b n = NO_ERROR)"

text \<open>\<open>env_willing\<close> asks for more.\<close>

lemma willing_works: "env_willing E \<Longrightarrow> driver_works E"
  by (simp add: env_willing_def driver_works_def)

definition exact :: "epm \<Rightarrow> bool" where
  "exact s \<longleftrightarrow> (powered (trace s) \<longleftrightarrow> pidsMap s \<noteq> []) \<and> (powered (trace s) \<longrightarrow> \<not> is_neg (nq_node s))"

lemma works_status:
  assumes "driver_works E"
  obtains r v where "do_get_status E i s = ((r, v), s\<lparr>trace := EvGetStatus (nq_node s) r (Some v) # trace s\<rparr>)"
    and "\<not> is_neg r" and "\<not> fw_downloading v" and "spi_in_use v \<longleftrightarrow> powered (trace s)"
proof -
  from assms obtain r v where "sys_get_status E (trace s) (nq_node s) = (r, Some v)"
    and "\<not> is_neg r" "\<not> fw_downloading v" "spi_in_use v \<longleftrightarrow> powered (trace s)"
    unfolding driver_works_def by metis
  then show thesis by (intro that [of r v]) (simp_all add: do_get_status_def)
qed

lemma works_ioctl:
  "driver_works E \<Longrightarrow> \<exists>r. do_ioctl E cmd a s = (r, s\<lparr>trace := EvIoctl (nq_node s) cmd a r # trace s\<rparr>) \<and> \<not> is_neg r"
  by (simp add: do_ioctl_def driver_works_def Let_def)

text \<open>The parts of a request that do not switch the power.\<close>

lemma exact_allowed: "isPowerOnAllowed E s = (ok, s') \<Longrightarrow> exact s \<Longrightarrow> exact s'"
  using allowed_frame [of E s ok s'] by (simp add: exact_def)

lemma exact_open: "ensure_open E s = (x, s') \<Longrightarrow> exact s \<Longrightarrow>
    exact s' \<and> (x = Inr () \<longrightarrow> \<not> is_neg (nq_node s'))"
  by (auto simp: exact_def ensure_open_def do_open_def Let_def split: if_splits)

lemma exact_getState:
  assumes "driver_works E" and "exact s"
  shows "exact (snd (getState E s))"
proof -
  obtain x s1 where o: "ensure_open E s = (x, s1)" by fastforce
  obtain r v where g: "do_get_status E (- 1) s1 = ((r, v), s1\<lparr>trace := EvGetStatus (nq_node s1) r (Some v) # trace s1\<rparr>)"
    using works_status [OF assms(1)] by metis
  show ?thesis
    using exact_open [OF o assms(2)] by (simp add: getState_def o g exact_def split: sum.split)
qed

lemma close_view:
  "powered (trace (close_node E s)) = powered (trace s)" "pidsMap (close_node E s) = pidsMap s"
  by simp_all

text \<open>Once the registry is empty, switching off is exact.\<close>

lemma exact_switched_off:
  "pidsMap s = [] \<Longrightarrow> \<not> powered (trace s) \<Longrightarrow> exact s"
  by (simp add: exact_def)

lemma exact_power_up:
  assumes "driver_works E" and "power_up E s = (x, s')"
  shows "x = Inr () \<and> nq_node s' = nq_node s \<and> pidsMap s' = pidsMap s \<and> powered (trace s')"
proof -
  obtain r v where g: "do_get_status E (- 1) s = ((r, v), s\<lparr>trace := EvGetStatus (nq_node s) r (Some v) # trace s\<rparr>)"
    "\<not> is_neg r" "\<not> fw_downloading v" "spi_in_use v \<longleftrightarrow> powered (trace s)"
    using works_status [OF assms(1)] by metis
  with assms show ?thesis
    by (auto simp: power_up_def do_ioctl_def driver_works_def Let_def split: if_splits)
qed

lemma pm_nonempty: "pm_insert k v m \<noteq> []" "pm_assign k v m \<noteq> []"
  by (cases m; auto split: if_splits)+

lemma enrol_nonempty: "enrol pid d m \<noteq> []"
  by (simp add: enrol_def pm_nonempty split: option.split)

lemma exact_register:
  assumes "driver_works E" and "powered (trace s)" and "\<not> is_neg (nq_node s)"
  shows "exact (snd (register_client E pid cb s))"
proof (cases cb)
  case None
  let ?s = "s\<lparr>next_obj := next_obj s + 1\<rparr>"
  obtain r where "do_ioctl E P61_SET_SPM_PWR 0 ?s = (r, ?s\<lparr>trace := EvIoctl (nq_node ?s) P61_SET_SPM_PWR 0 r # trace ?s\<rparr>)"
    "\<not> is_neg r"
    using works_ioctl [OF assms(1)] by blast
  then show ?thesis
    using None assms(2,3)
    by (auto simp: register_client_def Let_def isPidsMapEmpty_def pm_is_empty_def exact_def)
next
  case (Some b)
  then show ?thesis
    using assms
    by (simp add: register_client_def do_link_def driver_works_def Let_def exact_def enrol_nonempty)
qed

lemma exact_powerOn:
  assumes "driver_works E" and "exact s"
  shows "exact (snd (powerOn E c cb s))"
proof -
  obtain ok s1 where a: "isPowerOnAllowed E s = (ok, s1)" by fastforce
  obtain x s2 where o: "ensure_open E s1 = (x, s2)" by fastforce
  obtain y s3 where u: "power_up E s2 = (y, s3)" by fastforce
  have s1: "exact s1" using exact_allowed [OF a assms(2)] .
  note s2 = exact_open [OF o s1] and s3 = exact_power_up [OF assms(1) u]
  show ?thesis
    using s1 s2 s3 exact_getState [OF assms(1) s1] exact_register [OF assms(1), of s3]
    by (auto simp: powerOn_def a o u split: sum.split)
qed

lemma exact_power_down:
  assumes "driver_works E" and "pidsMap s = []" and "powered (trace s) \<longrightarrow> \<not> is_neg (nq_node s)"
  shows "exact (snd (power_down E s))"
proof -
  obtain r v where g: "do_get_status E (- 1) s = ((r, v), s\<lparr>trace := EvGetStatus (nq_node s) r (Some v) # trace s\<rparr>)"
    "\<not> fw_downloading v"
    using works_status [OF assms(1)] by metis
  let ?s = "s\<lparr>trace := EvGetStatus (nq_node s) r (Some v) # trace s\<rparr>"
  obtain r' where i: "do_ioctl E P61_SET_SPM_PWR 0 ?s = (r', ?s\<lparr>trace := EvIoctl (nq_node ?s) P61_SET_SPM_PWR 0 r' # trace ?s\<rparr>)"
    "\<not> is_neg r'"
    using works_ioctl [OF assms(1)] by blast
  show ?thesis
    using assms(2,3) g i by (auto simp: power_down_def exact_def Let_def)
qed

lemma unlink_view:
  "powered (trace (unlink_client d s)) = powered (trace s)" "nq_node (unlink_client d s) = nq_node s"
  "pidsMap (unlink_client d s) = pidsMap s"
  by (simp_all add: unlink_client_def do_unlink_def split: option.split)

lemma exact_powerOff:
  assumes "driver_works E" and "exact s"
  shows "exact (snd (powerOff E c s))"
proof (cases "bad_uid (calling_uid c) \<or> pm_find (pidsMap s) (calling_pid c) = None")
  case True
  with assms(2) show ?thesis by (auto simp: powerOff_def Let_def)
next
  case False
  then obtain d where d: "pm_find (pidsMap s) (calling_pid c) = Some d" by auto
  then have on: "powered (trace s)" "\<not> is_neg (nq_node s)"
    using assms(2) by (auto simp: exact_def pm_find_def)
  let ?d = "d\<lparr>client_threadCount := client_threadCount d - 1\<rparr>"
  let ?m = "pm_assign (calling_pid c) ?d (pidsMap s)"
  let ?u = "unlink_client d s"
  have m: "?m \<noteq> []" by (rule pm_nonempty)
  have "exact (snd (power_down E (?u\<lparr>pidsMap := pm_erase (calling_pid c) ?m\<rparr>)))"
    if "pm_erase (calling_pid c) ?m = []"
    using that on by (intro exact_power_down assms(1)) (simp_all add: unlink_view)
  with False d on m show ?thesis
    by (auto simp: powerOff_def Let_def unlink_view exact_def isPidsMapEmpty_def pm_is_empty_def)
qed

lemma unlink_all_view:
  "powered (trace (fold (\<lambda>(_, d). unlink_client d) m s)) = powered (trace s)"
  "nq_node (fold (\<lambda>(_, d). unlink_client d) m s) = nq_node s"
  by (induction m arbitrary: s) (auto simp: unlink_view)

lemma exact_killall:
  assumes "driver_works E" and "exact s"
  shows "exact (snd (killall E c s))"
proof -
  let ?u = "fold (\<lambda>(_, d). unlink_client d) (pidsMap s) s\<lparr>pidsMap := pm_empty\<rparr>"
  obtain x s1 where o: "ensure_open E ?u = (x, s1)" by fastforce
  then have s1: "pidsMap s1 = []" "powered (trace s1) = powered (trace s)"
    "x = Inl fd \<Longrightarrow> \<not> powered (trace s)" for fd
    using assms(2)
    by (auto simp: ensure_open_def do_open_def Let_def pm_empty_def unlink_all_view exact_def split: if_splits)
  obtain r v where g: "do_get_status E (- 1) s1 = ((r, v), s1\<lparr>trace := EvGetStatus (nq_node s1) r (Some v) # trace s1\<rparr>)"
    "\<not> fw_downloading v"
    using works_status [OF assms(1)] by metis
  let ?s = "s1\<lparr>trace := EvGetStatus (nq_node s1) r (Some v) # trace s1\<rparr>"
  obtain r' where i: "do_ioctl E P61_SET_SPM_PWR 0 ?s = (r', ?s\<lparr>trace := EvIoctl (nq_node ?s) P61_SET_SPM_PWR 0 r' # trace ?s\<rparr>)"
    "\<not> is_neg r'"
    using works_ioctl [OF assms(1)] by blast
  show ?thesis
    using assms(2) s1 g i
    by (auto simp: killall_def o Let_def split: sum.split intro!: exact_switched_off)
qed

lemma exact_died:
  assumes "driver_works E" and "exact s"
  shows "exact (binderDied E n s)"
proof -
  let ?s = "s\<lparr>pidsMap := pm_erase (mPid n) (pidsMap s)\<rparr>"
  obtain r where i: "do_ioctl E P61_SET_SPM_PWR 0 ?s = (r, ?s\<lparr>trace := EvIoctl (nq_node ?s) P61_SET_SPM_PWR 0 r # trace ?s\<rparr>)"
    "\<not> is_neg r"
    using works_ioctl [OF assms(1)] by blast
  have e: "pm_erase (mPid n) m \<noteq> [] \<Longrightarrow> m \<noteq> []" for m :: "service_data pmap" by (cases m) auto
  show ?thesis
    using assms(2) i e [of "pidsMap s"]
    by (auto simp: binderDied_def Let_def isPidsMapEmpty_def pm_is_empty_def exact_def)
qed

lemma exact_step:
  assumes "driver_works E" and "exact s" and "epm_step E s r ret s'"
  shows "exact s'"
proof -
  have "exact (snd (geteSEBindingStatus E s))"
    using assms(2) by (simp add: geteSEBindingStatus_def Let_def exact_def)
  with epm_step_cases [OF assms(3), of exact] assms(1,2) show ?thesis
    by (simp add: exact_powerOn exact_powerOff exact_getState exact_killall exact_died)
qed

text \<open>C2.  While the driver works and death links can be made, the secure element is powered in
  a reachable state exactly when a process is registered, and then its device is open: no
  sequence of requests of any callers, refused ones, deaths and \<open>killall\<close> included, leaves the
  power on with nobody to use it.\<close>

theorem powered_iff_registered:
  assumes "driver_works E" and "reaches E n s"
  shows "(powered (trace s) \<longleftrightarrow> pidsMap s \<noteq> []) \<and> (powered (trace s) \<longrightarrow> \<not> is_neg (nq_node s))"
  using assms(2)
proof (induction rule: reaches.induct)
  case start
  then show ?case by (simp add: epm_init_def pm_empty_def)
next
  case (step n s r ret s')
  then show ?case using exact_step [OF assms(1) _ step(2)] by (simp add: exact_def)
qed

lemma powered_iff_registered_witness: "powered (trace after_on) \<and> pidsMap after_on \<noteq> []"
  using powered_iff_registered [OF willing_works [OF good_env_willing] reaches_after_on]
  by (simp add: after_on_def)

end
