(* ===== verification/PowerSharing.thy ===== *)
theory PowerSharing
  imports PowerExact
begin

text \<open>
  Several processes at the same time: what the others can and cannot do to a process that is
  using the element, first with requests one after the other, as the mutex of the stub makes
  them, then with the deaths of clients, which the daemon handles without that mutex.
\<close>

subsection \<open>Requests of the others\<close>

inductive epm_steps :: "epm_env \<Rightarrow> epm \<Rightarrow> request list \<Rightarrow> epm \<Rightarrow> bool" for E where
  none: "epm_steps E s [] s"
| more: "epm_step E s r ret s' \<Longrightarrow> epm_steps E s' rs s'' \<Longrightarrow> epm_steps E s (r # rs) s''"

inductive_simps epm_steps_simps [simp]: "epm_steps E s [] s'" "epm_steps E s (r # rs) s'"

text \<open>The requests that are not aimed at the process: it does not power off, it does not die, and
  nobody who may kills all sessions.\<close>

fun spares :: "u32 \<Rightarrow> request \<Rightarrow> bool" where
  "spares p (ReqPowerOff c) \<longleftrightarrow> calling_pid c \<noteq> p \<or> bad_uid (calling_uid c)"
| "spares p (ReqKillall c) \<longleftrightarrow> bad_uid (calling_uid c)"
| "spares p (ReqDied n) \<longleftrightarrow> mPid n \<noteq> p"
| "spares p _ \<longleftrightarrow> True"

lemma spared_uses: "spares p r \<Longrightarrow> L p \<le> ledger_step r ret L p"
  by (cases r) auto

lemma spared_run:
  "\<lbrakk>epm_steps E s rs s'; reaches E n s; list_all (spares p) rs; n + length rs < 2 ^ 31 - 1\<rbrakk> \<Longrightarrow>
    reaches E (n + length rs) s' \<and> ledger_of s p \<le> ledger_of s' p"
proof (induction arbitrary: n rule: epm_steps.induct)
  case (more s r ret s1 rs s')
  have "reg_inv n s" using more.prems by (intro reaches_reg_inv) auto
  then have "ledger_of s1 = ledger_step r ret (ledger_of s)"
    using more.hyps(1) more.prems by (intro ledger_step_refines) auto
  then have "ledger_of s p \<le> ledger_of s1 p"
    using more.prems(2) spared_uses [of p r "ledger_of s" ret] by simp
  moreover have "reaches E (Suc n) s1" using more.prems(1) more.hyps(1) by (rule reaches.step)
  ultimately show ?case using more.IH [of "Suc n"] more.prems by auto
qed simp

text \<open>C8.  A session is not disturbed by the others: while a process holds uses, any requests of
  other processes, accepted or refused, and any deaths of others leave it its uses and leave the
  element powered.\<close>

theorem undisturbed_session:
  assumes "driver_truthful E" and "reaches E n s" and "0 < ledger_of s p"
    and "epm_steps E s rs s'" and "list_all (spares p) rs" and "n + length rs < 2 ^ 31 - 1"
  shows "ledger_of s p \<le> ledger_of s' p \<and> powered (trace s')"
proof -
  have run: "reaches E (n + length rs) s'" "ledger_of s p \<le> ledger_of s' p"
    using spared_run [OF assms(4,2,5,6)] by auto
  have "pidsMap s' \<noteq> [] \<longrightarrow> powered (trace s')"
    using run(1)
    by (rule reaches_invariant) (auto simp: epm_init_def pm_empty_def dest: power_inv_step [OF assms(1)])
  moreover have "pidsMap s' \<noteq> []"
    using run(2) assms(3) by (auto simp: ledger_of_def pm_find_def)
  ultimately show ?thesis using run(2) by blast
qed

lemma after_on_uses: "ledger_of after_on 42 = 1"
  by (simp add: ledger_of_def after_on_def pm_find_def)

lemma undisturbed_session_witness:
  "powered (trace (binderDied good_env (ClientDiedNotifier 7 0) (snd (getState good_env after_on))))"
proof -
  have "epm_steps good_env after_on [ReqGetState, ReqDied (ClientDiedNotifier 7 0)]
      (binderDied good_env (ClientDiedNotifier 7 0) (snd (getState good_env after_on)))"
    by (auto intro: prod.collapse [symmetric])
  from undisturbed_session [OF good_env_truthful reaches_after_on _ this, of 42] show ?thesis
    by (simp add: after_on_uses)
qed

subsection \<open>Deaths in the middle of a call\<close>

text \<open>
  \<open>powerOn\<close> in two parts: up to the point where the power is on, and the registration.
\<close>

definition powerOn_prepare :: "epm_env \<Rightarrow> caller \<Rightarrow> epm \<Rightarrow> (i32 + unit) \<times> epm" where
  "powerOn_prepare E c s =
     (let (allowed, s) = isPowerOnAllowed E s in
      if \<not> allowed then (Inl PERMISSION_DENIED, snd (getState E s))
      else if bad_uid (calling_uid c) then (Inl PERMISSION_DENIED, s)
      else case ensure_open E s of (Inl fd, s) \<Rightarrow> (Inl fd, s) | (Inr _, s) \<Rightarrow> power_up E s)"

lemma powerOn_parts:
  "powerOn E c cb s = (case powerOn_prepare E c s of (Inl ret, s) \<Rightarrow> (ret, s)
     | (Inr _, s) \<Rightarrow> register_client E (calling_pid c) cb s)"
  by (auto simp: powerOn_def powerOn_prepare_def split: prod.split sum.split)

text \<open>
  The stub lets one call in at a time; a death can be handled between the two parts of a
  \<open>powerOn\<close>.
\<close>

datatype transaction = NoCall | Registering caller "ibinder option"

inductive race_step :: "epm_env \<Rightarrow> epm \<times> transaction \<Rightarrow> epm \<times> transaction \<Rightarrow> bool" for E where
  call: "epm_step E s r ret s' \<Longrightarrow> race_step E (s, NoCall) (s', NoCall)"
| enter: "powerOn_prepare E c s = (Inr u, s') \<Longrightarrow> race_step E (s, NoCall) (s', Registering c cb)"
| finish: "register_client E (calling_pid c) cb s = (ret, s') \<Longrightarrow> race_step E (s, Registering c cb) (s', NoCall)"
| death: "race_step E (s, t) (binderDied E n s, t)"

text \<open>Without a death in the middle, the two parts are the call.\<close>

lemma race_serial:
  assumes "race_step E (s, NoCall) (s1, Registering c cb)" and "race_step E (s1, Registering c cb) (s2, NoCall)"
  shows "s2 = snd (powerOn E c cb s)"
  using assms by (auto simp: powerOn_parts elim!: race_step.cases)

lemma prepare_willing:
  fixes c :: caller
  assumes "env_willing E" and "\<not> bad_uid (calling_uid c)"
  shows "\<exists>s'. powerOn_prepare E c s = (Inr (), s') \<and> \<not> is_neg (nq_node s') \<and> pidsMap s' = pidsMap s \<and> powered (trace s')"
proof -
  obtain ok s1 where a: "isPowerOnAllowed E s = (ok, s1)" by fastforce
  obtain x s2 where o: "ensure_open E s1 = (x, s2)" by fastforce
  obtain y s3 where u: "power_up E s2 = (y, s3)" by fastforce
  note facts = allowed_frame [OF a] ensure_open_willing [OF assms(1) o] power_up_willing [OF assms(1) u]
  moreover have ok using willing_calls(4) [OF assms(1), of s] a by simp
  ultimately show ?thesis using assms(2) by (simp add: powerOn_prepare_def a o u)
qed

text \<open>The missing lock loses the power: although every call of the environment succeeds, a
  \<open>powerOn\<close> of one process, interleaved with the death of the only other process that uses the
  element, can end with its caller registered and the element switched off.\<close>

lemma death_races_powerOn:
  fixes c :: caller
  assumes "env_willing E" and "\<not> bad_uid (calling_uid c)" and "pidsMap s = [(mPid n, d)]"
  shows "\<exists>s'. (race_step E)\<^sup>*\<^sup>* (s, NoCall) (s', NoCall) \<and>
    pm_find (pidsMap s') (calling_pid c) \<noteq> None \<and> \<not> powered (trace s')"
proof -
  obtain s1 where p: "powerOn_prepare E c s = (Inr (), s1)" "\<not> is_neg (nq_node s1)" "pidsMap s1 = [(mPid n, d)]"
    using prepare_willing [OF assms(1,2), of s] assms(3) by auto
  define s2 where "s2 = binderDied E n s1"
  obtain r where i: "do_ioctl E P61_SET_SPM_PWR 0 (s1\<lparr>pidsMap := []\<rparr>) =
      (r, s1\<lparr>pidsMap := [], trace := EvIoctl (nq_node s1) P61_SET_SPM_PWR 0 r # trace s1\<rparr>)" "\<not> is_neg r"
    using works_ioctl [OF willing_works [OF assms(1)], of P61_SET_SPM_PWR 0 "s1\<lparr>pidsMap := []\<rparr>"] by auto
  have s2: "pidsMap s2 = []" "\<not> powered (trace s2)"
    using p i by (simp_all add: s2_def binderDied_def Let_def isPidsMapEmpty_def pm_is_empty_def)
  obtain s3 ret where f: "register_client E (calling_pid c) (Some 0) s2 = (ret, s3)" by fastforce
  then have s3: "pm_find (pidsMap s3) (calling_pid c) \<noteq> None" "\<not> powered (trace s3)"
    using s2 assms(1)
    by (auto simp: register_client_def do_link_def env_willing_def Let_def enrol_def pm_find_def)
  have "(race_step E)\<^sup>*\<^sup>* (s, NoCall) (s3, NoCall)"
    using race_step.enter [OF p(1), of "Some 0"] race_step.death [of E s1 "Registering c (Some 0)" n]
      race_step.finish [OF f] unfolding s2_def [symmetric]
    by (meson r_into_rtranclp rtranclp.rtrancl_into_rtrancl)
  with s3 show ?thesis by blast
qed

lemma death_races_powerOn_witness:
  "powered (trace after_on) \<and>
   (\<exists>s'. (race_step good_env)\<^sup>*\<^sup>* (after_on, NoCall) (s', NoCall) \<and> pm_find (pidsMap s') 43 \<noteq> None \<and> \<not> powered (trace s'))"
  using death_races_powerOn [OF good_env_willing, of "\<lparr>calling_uid = 1000, calling_pid = 43\<rparr>" after_on
      "ClientDiedNotifier 42 0"] uid_some_client(2)
  by (simp add: after_on_def some_client_def)

end
