(* ===== verification/PowerThreads.thy ===== *)
theory PowerThreads
  imports PowerSharing
begin

text \<open>
  Threads of several client processes, as \<open>getCplcTest.cpp\<close> starts them: each goes round
  \<open>powerOn\<close>, a use of the element, \<open>powerOff\<close>, and their requests are interleaved in any order.
  A client may read the state at any time, and a process may die with the threads it has.
\<close>

text \<open>\<open>threads E n s T\<close>: after \<open>n\<close> requests the daemon is in state \<open>s\<close>, and \<open>T\<close> lists the threads
  whose \<open>powerOn\<close> was granted and that have not yet called \<open>powerOff\<close>, each by its caller.  A
  thread that is refused goes round again, as \<open>getCplC\<close> does.\<close>

inductive threads :: "epm_env \<Rightarrow> nat \<Rightarrow> epm \<Rightarrow> caller list \<Rightarrow> bool" for E where
  start: "threads E 0 epm_init []"
| enter: "threads E n s T \<Longrightarrow> powerOn E c cb s = (ret, s') \<Longrightarrow> \<not> is_neg ret \<Longrightarrow> threads E (Suc n) s' (c # T)"
| refused: "threads E n s T \<Longrightarrow> powerOn E c cb s = (ret, s') \<Longrightarrow> is_neg ret \<Longrightarrow> threads E (Suc n) s' T"
| leave: "threads E n s T \<Longrightarrow> c \<in> set T \<Longrightarrow> powerOff E c s = (ret, s') \<Longrightarrow> threads E (Suc n) s' (remove1 c T)"
| look: "threads E n s T \<Longrightarrow> getState E s = (ret, s') \<Longrightarrow> threads E (Suc n) s' T"
| died: "threads E n s T \<Longrightarrow>
    threads E (Suc n) (binderDied E d s) (filter (\<lambda>c. calling_pid c \<noteq> mPid d) T)"

definition inside :: "caller list \<Rightarrow> ledger" where
  "inside T p = length (filter (\<lambda>c. calling_pid c = p) T)"

lemma inside_simps [simp]:
  "inside [] = (\<lambda>_. 0)"
  "inside (c # T) = (inside T)(calling_pid c := inside T (calling_pid c) + 1)"
  by (auto simp: inside_def)

lemma inside_leave:
  "c \<in> set T \<Longrightarrow> inside (remove1 c T) = (inside T)(calling_pid c := inside T (calling_pid c) - 1)"
proof (induction T)
  case (Cons d T)
  have "c \<in> set T \<Longrightarrow> 0 < inside T (calling_pid c)" by (auto simp: inside_def filter_empty_conv)
  with Cons show ?case by (cases "c = d") (auto simp: fun_eq_iff)
qed simp

lemma inside_died: "inside (filter (\<lambda>c. calling_pid c \<noteq> p) T) = (inside T)(p := 0)"
  by (auto simp: inside_def fun_eq_iff filter_empty_conv intro!: arg_cong [of _ _ length] filter_cong)

lemma inside_zero: "inside T = (\<lambda>_. 0) \<longleftrightarrow> T = []"
  by (cases T) (auto simp: fun_eq_iff intro!: exI [of _ "calling_pid (hd T)"])

lemma threads_reach: "threads E n s T \<Longrightarrow> reaches E n s"
  by (induction rule: threads.induct) (blast intro: reaches.intros epm_step.intros)+

text \<open>Who is inside was let in, and who was let in may leave.\<close>

lemma granted: "powerOn E c cb s = (ret, s') \<Longrightarrow> \<not> is_neg ret \<Longrightarrow> ret = 1 \<and> \<not> bad_uid (calling_uid c)"
  by (drule powerOn_registry) auto

lemma threads_privileged: "threads E n s T \<Longrightarrow> c \<in> set T \<Longrightarrow> \<not> bad_uid (calling_uid c)"
  by (induction rule: threads.induct) (auto dest: granted notin_set_remove1)

lemma threads_ledger: "threads E n s T \<Longrightarrow> n < 2 ^ 31 - 1 \<Longrightarrow> ledger_of s = inside T"
proof (induction rule: threads.induct)
  case start
  then show ?case by (simp add: ledger_of_def epm_init_def pm_empty_def pm_find_def)
next
  case (enter n s T c cb ret s')
  have "reg_inv n s" using enter by (intro reaches_reg_inv) (auto dest: threads_reach)
  with enter show ?case
    using ledger_step_refines [of E s "ReqPowerOn c cb" ret s' n] granted [OF enter.hyps(2,3)] by simp
next
  case (refused n s T c cb ret s')
  have "reg_inv n s" using refused by (intro reaches_reg_inv) (auto dest: threads_reach)
  with refused show ?case
    using ledger_step_refines [of E s "ReqPowerOn c cb" ret s' n] by auto
next
  case (leave n s T c ret s')
  have "reg_inv n s" using leave by (intro reaches_reg_inv) (auto dest: threads_reach)
  with leave show ?case
    using ledger_step_refines [of E s "ReqPowerOff c" ret s' n] threads_privileged [OF leave.hyps(1,2)]
    by (simp add: inside_leave)
next
  case (look n s T ret s')
  have "reg_inv n s" using look by (intro reaches_reg_inv) (auto dest: threads_reach)
  with look show ?case using ledger_step_refines [of E s ReqGetState ret s' n] by simp
next
  case (died n s T d)
  have "reg_inv n s" using died by (intro reaches_reg_inv) (auto dest: threads_reach)
  with died show ?case
    using ledger_step_refines [of E s "ReqDied d" 0 "binderDied E d s" n] by (simp add: inside_died)
qed

lemma registered_uses:
  assumes "reg_inv n s"
  shows "pidsMap s \<noteq> [] \<longleftrightarrow> ledger_of s \<noteq> (\<lambda>_. 0)"
proof (cases "pidsMap s")
  case Nil
  then show ?thesis by (simp add: ledger_of_def pm_find_def fun_eq_iff)
next
  case (Cons x m)
  then have f: "pm_find (pidsMap s) (fst x) = Some (snd x)" by (cases x) (simp add: pm_find_def)
  with assms have "0 < ledger_of s (fst x)"
    by (fastforce simp: reg_inv_def map_ok_def entry_ok_def ledger_of_def)
  then have "ledger_of s \<noteq> (\<lambda>_. 0)" by (metis less_nat_zero_code)
  with Cons show ?thesis by simp
qed

text \<open>C3.  Threads share the element safely, however their calls are interleaved: the daemon counts
  for every process exactly the threads it has inside, and, while the driver works and death links
  can be made, the element is powered exactly while some thread is inside.\<close>

theorem threads_share_power:
  assumes "driver_works E" and "threads E n s T" and "n < 2 ^ 31 - 1"
  shows "(\<forall>p. ledger_of s p = length (filter (\<lambda>c. calling_pid c = p) T)) \<and> (powered (trace s) \<longleftrightarrow> T \<noteq> [])"
proof -
  note r = threads_reach [OF assms(2)]
  have l: "ledger_of s = inside T" by (rule threads_ledger [OF assms(2,3)])
  have "exact s"
    using r by (rule reaches_invariant) (simp add: exact_def epm_init_def pm_empty_def, rule exact_step [OF assms(1)])
  then have "powered (trace s) \<longleftrightarrow> pidsMap s \<noteq> []" by (simp add: exact_def)
  also have "\<dots> \<longleftrightarrow> ledger_of s \<noteq> (\<lambda>_. 0)"
    using reaches_reg_inv [OF r] assms(3) by (intro registered_uses) simp
  also have "\<dots> \<longleftrightarrow> T \<noteq> []" by (simp only: l inside_zero simp_thms)
  finally show ?thesis using l by (simp add: inside_def)
qed

text \<open>A thread comes in, and somebody reads the state.\<close>

lemma threads_share_power_witness:
  "\<exists>s. threads good_env 2 s [some_client] \<and> ledger_of s 42 = 1 \<and> powered (trace s)"
proof -
  have "threads good_env 1 after_on [some_client]"
    using threads.enter [OF threads.start, of good_env some_client "Some 7" 1 after_on] first_on by simp
  then have t: "threads good_env 2 (snd (getState good_env after_on)) [some_client]"
    using threads.look [of good_env 1 after_on "[some_client]"] by (simp add: numeral_2_eq_2 prod_eq_iff)
  from threads_share_power [OF willing_works [OF good_env_willing] t] t show ?thesis
    by (auto simp: some_client_def)
qed

end
