(* ===== verification/PowerRaces.thy ===== *)
theory PowerRaces
  imports PowerSharing
begin

text \<open>
  The calls of the power daemon in small steps.  The mutex of the stub lets one call in at a time;
  the deaths of clients are handled on other threads without it, so their steps can come between
  any two accesses of the call to \<open>pidsMap\<close>, to \<open>nq_node\<close> and to the device.  An access is one
  step; so is the opening of the device with the assignment of its descriptor, which a death only
  reads, and the \<open>getState()\<close> in the log line of a refused call.
\<close>

subsection \<open>The subscript of the registry\<close>

text \<open>\<open>pidsMap[pid]\<close> on a key that is not there inserts an entry without callback and notifier and
  with count 0.\<close>

definition no_data :: service_data where
  "no_data = \<lparr>l_serviceCb = None, l_deathNotifier = None, client_threadCount = 0\<rparr>"

definition subscript :: "u32 \<Rightarrow> epm \<Rightarrow> service_data \<times> epm" where
  "subscript pid s = (case pm_find (pidsMap s) pid of
       Some d \<Rightarrow> (d, s)
     | None \<Rightarrow> (no_data, s\<lparr>pidsMap := pm_insert pid no_data (pidsMap s)\<rparr>))"

text \<open>\<open>pidsMap[pid].client_threadCount += k\<close>.\<close>

definition add_count :: "u32 \<Rightarrow> i32 \<Rightarrow> epm \<Rightarrow> epm" where
  "add_count pid k s = (let (d, s) = subscript pid s
     in s\<lparr>pidsMap := pm_assign pid (d\<lparr>client_threadCount := client_threadCount d + k\<rparr>) (pidsMap s)\<rparr>)"

subsection \<open>\<open>powerOff\<close> in small steps\<close>

text \<open>The points of the call, in the order of its statements.\<close>

datatype off_point =
    OffUid | OffCount | OffCallback | OffNotifier | OffUnlink | OffLower | OffTest | OffLog | OffErase
  | OffEmpty | OffNode | OffStatus | OffPower | OffClose | OffDone i32 | OffCrashed

fun off_step :: "epm_env \<Rightarrow> caller \<Rightarrow> off_point \<Rightarrow> epm \<Rightarrow> off_point \<times> epm" where
  "off_step E c OffUid s = (if bad_uid (calling_uid c) then OffDone PERMISSION_DENIED else OffCount, s)"
| "off_step E c OffCount s = (if pm_count (pidsMap s) (calling_pid c) = 0 then OffDone (- 1) else OffCallback, s)"
| "off_step E c OffCallback s = (let (d, s) = subscript (calling_pid c) s
     in (if l_serviceCb d \<noteq> None then OffNotifier else OffLower, s))"
| "off_step E c OffNotifier s = (let (d, s) = subscript (calling_pid c) s
     in (if l_deathNotifier d \<noteq> None then OffUnlink else OffLower, s))"
| "off_step E c OffUnlink s = (let (d, s) = subscript (calling_pid c) s
     in case l_serviceCb d of None \<Rightarrow> (OffCrashed, s)
        | Some b \<Rightarrow> (OffLower, case l_deathNotifier d of None \<Rightarrow> s | Some n \<Rightarrow> do_unlink b n s))"
| "off_step E c OffLower s = (OffTest, add_count (calling_pid c) (- 1) s)"
| "off_step E c OffTest s = (let (d, s) = subscript (calling_pid c) s
     in (if is_pos (client_threadCount d) then OffLog else OffErase, s))"
| "off_step E c OffLog s = (OffDone 1, snd (subscript (calling_pid c) s))"
| "off_step E c OffErase s = (OffEmpty, s\<lparr>pidsMap := pm_erase (calling_pid c) (pidsMap s)\<rparr>)"
| "off_step E c OffEmpty s = (if \<not> isPidsMapEmpty s then OffDone 1 else OffNode, s)"
| "off_step E c OffNode s = (if is_neg (nq_node s) then OffDone 0 else OffStatus, s)"
| "off_step E c OffStatus s = (let ((ret, ese_current_state), s) = do_get_status E (- 1) s
     in (if fw_downloading ese_current_state then OffDone (- EBUSY) else OffPower, s))"
| "off_step E c OffPower s = (let (ret, s) = do_ioctl E P61_SET_SPM_PWR 0 s
     in (if is_neg ret then OffDone ret else OffClose, s))"
| "off_step E c OffClose s = (OffDone 0, close_node E s)"
| "off_step E c (OffDone ret) s = (OffDone ret, s)"
| "off_step E c OffCrashed s = (OffCrashed, s)"

subsection \<open>\<open>powerOn\<close> in small steps\<close>

datatype on_point =
    OnAllowed | OnGetState | OnUid | OnOpen | OnStatus | OnScheme | OnPower | OnNotifier
  | OnAlone | OnSwitchOff | OnClose | OnLink ibinder notifier | OnCount service_data | OnInsert service_data
  | OnRaise | OnRead | OnDone i32

fun on_step :: "epm_env \<Rightarrow> caller \<Rightarrow> ibinder option \<Rightarrow> on_point \<Rightarrow> epm \<Rightarrow> on_point \<times> epm" where
  "on_step E c cb OnAllowed s = (let (allowed, s) = isPowerOnAllowed E s
     in (if \<not> allowed then OnGetState else OnUid, s))"
| "on_step E c cb OnGetState s = (OnDone PERMISSION_DENIED, snd (getState E s))"
| "on_step E c cb OnUid s = (if bad_uid (calling_uid c) then OnDone PERMISSION_DENIED else OnOpen, s)"
| "on_step E c cb OnOpen s = (case ensure_open E s of (Inl fd, s) \<Rightarrow> (OnDone fd, s) | (Inr _, s) \<Rightarrow> (OnStatus, s))"
| "on_step E c cb OnStatus s = (let ((ret, ese_current_state), s) = do_get_status E (- 1) s
     in (if is_neg ret then OnDone ret
         else if spi_in_use ese_current_state then OnNotifier
         else if fw_downloading ese_current_state then OnDone (- EBUSY) else OnScheme, s))"
| "on_step E c cb OnScheme s = (let (ret, s) = do_ioctl E P61_SET_POWER_SCHEME 2 s
     in (if is_neg ret then OnDone ret else OnPower, s))"
| "on_step E c cb OnPower s = (let (ret, s) = do_ioctl E P61_SET_SPM_PWR 1 s
     in (if is_neg ret then OnDone ret else OnNotifier, s))"
| "on_step E c cb OnNotifier s =
     (case cb of None \<Rightarrow> OnAlone | Some b \<Rightarrow> OnLink b (ClientDiedNotifier (calling_pid c) (next_obj s)),
      s\<lparr>next_obj := next_obj s + 1\<rparr>)"
| "on_step E c cb OnAlone s = (if isPidsMapEmpty s then OnSwitchOff else OnDone (- 1), s)"
| "on_step E c cb OnSwitchOff s = (let (ret, s) = do_ioctl E P61_SET_SPM_PWR 0 s
     in (if is_neg ret then OnDone ret else OnClose, s))"
| "on_step E c cb OnClose s = (OnDone (- 1), close_node E s)"
| "on_step E c cb (OnLink b n) s = (let (ltdStat, s) = do_link E b n s
     in (if ltdStat \<noteq> NO_ERROR then OnDone (- 1)
         else OnCount \<lparr>l_serviceCb = Some b, l_deathNotifier = Some n, client_threadCount = 0\<rparr>, s))"
| "on_step E c cb (OnCount data) s =
     (if pm_count (pidsMap s) (calling_pid c) = 0 then OnInsert (data\<lparr>client_threadCount := 1\<rparr>) else OnRaise, s)"
| "on_step E c cb (OnInsert data) s = (OnDone 1, s\<lparr>pidsMap := pm_insert (calling_pid c) data (pidsMap s)\<rparr>)"
| "on_step E c cb OnRaise s = (OnRead, add_count (calling_pid c) 1 s)"
| "on_step E c cb OnRead s = (OnDone 1, snd (subscript (calling_pid c) s))"
| "on_step E c cb (OnDone ret) s = (OnDone ret, s)"

subsection \<open>\<open>binderDied\<close> in small steps\<close>

datatype die_point = DieErase | DieEmpty | DieNode | DiePower | DieDone

fun die_step :: "epm_env \<Rightarrow> notifier \<Rightarrow> die_point \<Rightarrow> epm \<Rightarrow> die_point \<times> epm" where
  "die_step E n DieErase s = (DieEmpty, s\<lparr>pidsMap := pm_erase (mPid n) (pidsMap s)\<rparr>)"
| "die_step E n DieEmpty s = (if \<not> isPidsMapEmpty s then DieDone else DieNode, s)"
| "die_step E n DieNode s = (if is_neg (nq_node s) then DieDone else DiePower, s)"
| "die_step E n DiePower s = (DieDone, snd (do_ioctl E P61_SET_SPM_PWR 0 s))"
| "die_step E n DieDone s = (DieDone, s)"

subsection \<open>Alone, the steps are the calls\<close>

fun run_steps :: "('p \<Rightarrow> epm \<Rightarrow> 'p \<times> epm) \<Rightarrow> nat \<Rightarrow> 'p \<times> epm \<Rightarrow> 'p \<times> epm" where
  "run_steps step 0 c = c"
| "run_steps step (Suc k) c = run_steps step k (step (fst c) (snd c))"

lemma run_steps_add: "run_steps step (j + k) c = run_steps step k (run_steps step j c)"
  by (induction j arbitrary: c) simp_all

text \<open>A call that has returned stays where it is.\<close>

lemma run_done [simp]:
  "run_steps (off_step E c) k (OffDone ret, s) = (OffDone ret, s)"
  "run_steps (on_step E c cb) k (OnDone ret, s) = (OnDone ret, s)"
  "run_steps (die_step E n) k (DieDone, s) = (DieDone, s)"
  by (induction k) simp_all

lemma die_alone: "run_steps (die_step E n) 4 (DieErase, s) = (DieDone, binderDied E n s)"
  by (simp add: numeral_eq_Suc binderDied_def Let_def)

lemma down_alone: "run_steps (off_step E c) 4 (OffNode, s) = (OffDone (fst (power_down E s)), snd (power_down E s))"
  by (simp add: numeral_eq_Suc power_down_def Let_def split: prod.split)

lemma find_assigned [simp]: "pm_find (pm_assign k v m) k = Some v"
  by (induction k v m rule: pm_assign.induct) auto

lemma subscript_hit: "pm_find (pidsMap s) pid = Some d \<Longrightarrow> subscript pid s = (d, s)"
  by (simp add: subscript_def)

lemma count_zero: "pm_count m p = 0 \<longleftrightarrow> pm_find m p = None"
  by (simp add: pm_count_def split: option.split)

lemma unlink_run:
  assumes "pm_find (pidsMap s) (calling_pid c) = Some d"
  shows "\<exists>k\<le>3. run_steps (off_step E c) k (OffCallback, s) = (OffLower, unlink_client d s)"
proof (cases "l_serviceCb d")
  case None
  then show ?thesis using assms
    by (intro exI [of _ "Suc 0"]) (simp add: subscript_hit unlink_client_def)
next
  case (Some b)
  then show ?thesis using assms
    by (cases "l_deathNotifier d", intro exI [of _ "Suc (Suc 0)"], simp add: subscript_hit unlink_client_def)
      (intro exI [of _ "Suc (Suc (Suc 0))"], simp add: subscript_hit unlink_client_def)
qed

lemma lower_run:
  assumes "pm_find (pidsMap s) (calling_pid c) = Some d"
    and "s1 = s\<lparr>pidsMap := pm_assign (calling_pid c) (d\<lparr>client_threadCount := client_threadCount d - 1\<rparr>) (pidsMap s)\<rparr>"
  shows "run_steps (off_step E c) 8 (OffLower, s) =
    (if is_pos (client_threadCount d - 1) then (OffDone 1, s1)
     else let s2 = s1\<lparr>pidsMap := pm_erase (calling_pid c) (pidsMap s1)\<rparr>
       in if \<not> isPidsMapEmpty s2 then (OffDone 1, s2) else (OffDone (fst (power_down E s2)), snd (power_down E s2)))"
    (is "_ = ?r")
proof -
  have a: "add_count (calling_pid c) (- 1) s = s1"
    using assms by (simp add: add_count_def subscript_hit)
  have s: "subscript (calling_pid c) s1 = (d\<lparr>client_threadCount := client_threadCount d - 1\<rparr>, s1)"
    using assms(2) by (simp add: subscript_hit)
  have "run_steps (off_step E c) 4 (OffLower, s) = (if is_pos (client_threadCount d - 1) then (OffDone 1, s1)
     else let s2 = s1\<lparr>pidsMap := pm_erase (calling_pid c) (pidsMap s1)\<rparr>
       in if \<not> isPidsMapEmpty s2 then (OffDone 1, s2) else (OffNode, s2))"
    using a s by (simp add: numeral_eq_Suc Let_def)
  then show ?thesis
    using down_alone [of E c] run_steps_add [of "off_step E c" 4 4 "(OffLower, s)"] by (simp add: Let_def)
qed

lemma off_alone: "run_steps (off_step E c) 13 (OffUid, s) = (OffDone (fst (powerOff E c s)), snd (powerOff E c s))"
proof (cases "bad_uid (calling_uid c)")
  case True
  then show ?thesis by (simp add: numeral_eq_Suc powerOff_def)
next
  case allowed: False
  show ?thesis
  proof (cases "pm_find (pidsMap s) (calling_pid c)")
    case None
    with allowed show ?thesis by (simp add: numeral_eq_Suc powerOff_def count_zero)
  next
    case (Some d)
    let ?u = "unlink_client d s"
    obtain k where k: "k \<le> 3" "run_steps (off_step E c) k (OffCallback, s) = (OffLower, ?u)"
      using unlink_run [OF Some] by blast
    have u: "pm_find (pidsMap ?u) (calling_pid c) = Some d"
      using reg_unlink [of s d] Some by (simp add: same_reg_def)
    have two: "run_steps (off_step E c) 2 (OffUid, s) = (OffCallback, s)"
      using allowed Some by (simp add: numeral_eq_Suc count_zero)
    have "run_steps (off_step E c) (2 + k + 8 + (3 - k)) (OffUid, s) =
        (OffDone (fst (powerOff E c s)), snd (powerOff E c s))"
      using allowed Some lower_run [OF u refl, of E]
      by (simp only: run_steps_add two k(2)) (simp add: powerOff_def Let_def)
    with k(1) show ?thesis by simp
  qed
qed

lemma register_alone:
  "run_steps (on_step E c cb) 5 (OnNotifier, s) =
    (OnDone (fst (register_client E (calling_pid c) cb s)), snd (register_client E (calling_pid c) cb s))"
proof (cases cb)
  case None
  then show ?thesis by (simp add: numeral_eq_Suc register_client_def Let_def isPidsMapEmpty_def split: prod.split)
next
  case (Some b)
  then show ?thesis
    by (auto simp: numeral_eq_Suc register_client_def Let_def do_link_def count_zero enrol_def add_count_def
        subscript_hit split: option.split)
qed

lemma up_run:
  "\<exists>k\<le>3. run_steps (on_step E c cb) k (OnStatus, s) =
    (case power_up E s of (Inl ret, s) \<Rightarrow> (OnDone ret, s) | (Inr _, s) \<Rightarrow> (OnNotifier, s))"
proof -
  obtain ret st s1 where g: "do_get_status E (- 1) s = ((ret, st), s1)" by (metis surj_pair)
  show ?thesis
  proof (cases "is_neg ret \<or> spi_in_use st \<or> fw_downloading st")
    case True
    then show ?thesis by (intro exI [of _ "Suc 0"]) (auto simp: power_up_def g)
  next
    case False
    then have "run_steps (on_step E c cb) (Suc (Suc (Suc 0))) (OnStatus, s) =
        (case power_up E s of (Inl ret, s) \<Rightarrow> (OnDone ret, s) | (Inr _, s) \<Rightarrow> (OnNotifier, s))"
      by (auto simp: power_up_def g Let_def split: prod.split)
    then show ?thesis by (intro exI [of _ "Suc (Suc (Suc 0))"]) simp
  qed
qed

lemma on_alone: "run_steps (on_step E c cb) 11 (OnAllowed, s) = (OnDone (fst (powerOn E c cb s)), snd (powerOn E c cb s))"
proof -
  obtain ok s1 where a: "isPowerOnAllowed E s = (ok, s1)" by fastforce
  obtain x s2 where o: "ensure_open E s1 = (x, s2)" by fastforce
  show ?thesis
  proof (cases "ok \<and> \<not> bad_uid (calling_uid c) \<and> (\<exists>u. x = Inr u)")
    case False
    then show ?thesis using a o by (cases x) (auto simp: numeral_eq_Suc powerOn_def)
  next
    case True
    then have three: "run_steps (on_step E c cb) 3 (OnAllowed, s) = (OnStatus, s2)"
      using a o by (auto simp: numeral_eq_Suc)
    obtain k where k: "k \<le> 3" "run_steps (on_step E c cb) k (OnStatus, s2) =
        (case power_up E s2 of (Inl ret, s) \<Rightarrow> (OnDone ret, s) | (Inr _, s) \<Rightarrow> (OnNotifier, s))"
      using up_run by blast
    have "run_steps (on_step E c cb) (3 + k + 5 + (3 - k)) (OnAllowed, s) =
        (OnDone (fst (powerOn E c cb s)), snd (powerOn E c cb s))"
      using True a o register_alone [of E c cb]
      by (simp only: run_steps_add three k(2)) (auto simp: powerOn_def split: prod.split sum.split)
    with k(1) show ?thesis by simp
  qed
qed

text \<open>A call that nothing disturbs is the call of the model: in small steps \<open>powerOff\<close>,
  \<open>powerOn\<close> and \<open>binderDied\<close> return after at most 13, 11 and 4 steps, with the value and in the
  state of the functions of \<open>PowerManager\<close>, and without dereferencing a null callback.\<close>

lemma calls_alone:
  "run_steps (off_step E c) 13 (OffUid, s) = (OffDone (fst (powerOff E c s)), snd (powerOff E c s)) \<and>
   run_steps (on_step E c cb) 11 (OnAllowed, s) = (OnDone (fst (powerOn E c cb s)), snd (powerOn E c cb s)) \<and>
   run_steps (die_step E n) 4 (DieErase, s) = (DieDone, binderDied E n s)"
  by (simp add: off_alone on_alone die_alone)

subsection \<open>A call and the deaths beside it\<close>

text \<open>
  One call is served, and a list of deaths is handled, each by a thread of its own: a schedule
  says who makes the next step.  A death that begins in the middle of the call stands at its first
  point until then.
\<close>

datatype turn = Serve | Bury nat

type_synonym deaths = "(notifier \<times> die_point) list"

fun take_turn :: "epm_env \<Rightarrow> ('p \<Rightarrow> epm \<Rightarrow> 'p \<times> epm) \<Rightarrow> turn \<Rightarrow> 'p \<times> deaths \<times> epm \<Rightarrow> 'p \<times> deaths \<times> epm" where
  "take_turn E step Serve (p, ds, s) = (let (p, s) = step p s in (p, ds, s))"
| "take_turn E step (Bury i) (p, ds, s) =
     (if i < length ds then
        let (n, x) = ds ! i; (x, s) = die_step E n x s in (p, ds[i := (n, x)], s)
      else (p, ds, s))"

fun take_turns :: "epm_env \<Rightarrow> ('p \<Rightarrow> epm \<Rightarrow> 'p \<times> epm) \<Rightarrow> turn list \<Rightarrow> 'p \<times> deaths \<times> epm \<Rightarrow> 'p \<times> deaths \<times> epm" where
  "take_turns E step [] w = w"
| "take_turns E step (a # as) w = take_turns E step as (take_turn E step a w)"

lemma turns_append: "take_turns E step (as @ bs) w = take_turns E step bs (take_turns E step as w)"
  by (induction as arbitrary: w) simp_all

definition dying :: "deaths \<Rightarrow> u32 set" where
  "dying ds = (\<lambda>(n, x). mPid n) ` set ds"

lemma mem_dying: "(n, x) \<in> set ds \<Longrightarrow> mPid n \<in> dying ds"
  by (force simp: dying_def)

lemma dying_update: "i < length ds \<Longrightarrow> mPid n = mPid (fst (ds ! i)) \<Longrightarrow> dying (ds[i := (n, x)]) = dying ds"
proof -
  assume a: "i < length ds" "mPid n = mPid (fst (ds ! i))"
  have "map (\<lambda>(n, x). mPid n) (ds[i := (n, x)]) = map (\<lambda>(n, x). mPid n) ds"
    using a by (simp add: map_update split_beta list_update_same_conv)
  then show ?thesis unfolding dying_def by (metis list.set_map)
qed

text \<open>What a death does to the registry, whatever the rest does.\<close>

lemma die_registry:
  assumes "die_step E n x s = (x', s')"
  shows "pidsMap s' = (if x = DieErase then pm_erase (mPid n) (pidsMap s) else pidsMap s)"
    and "x' \<noteq> DieErase" and "next_obj s' = next_obj s"
  using assms by (cases x; auto simp: do_ioctl_def Let_def split: if_splits)+

subsection \<open>What a call may find\<close>

text \<open>
  The interface of a call to the deaths beside it: it touches the entry of its own process only,
  and \<open>fits p e\<close> says what this entry, \<open>e\<close>, is when the call is at the point \<open>p\<close>.
\<close>

locale own_entry =
  fixes step :: "'p \<Rightarrow> epm \<Rightarrow> 'p \<times> epm" and pid :: u32 and fits :: "'p \<Rightarrow> service_data option \<Rightarrow> bool"
  assumes step_fits: "pm_inv (pidsMap s) \<Longrightarrow> fits p (pm_find (pidsMap s) pid) \<Longrightarrow> step p s = (p', s') \<Longrightarrow>
        fits p' (pm_find (pidsMap s') pid)"
    and step_inv: "pm_inv (pidsMap s) \<Longrightarrow> step p s = (p', s') \<Longrightarrow> pm_inv (pidsMap s')"
    and step_others: "pm_inv (pidsMap s) \<Longrightarrow> step p s = (p', s') \<Longrightarrow> q \<noteq> pid \<Longrightarrow>
        pm_find (pidsMap s') q = pm_find (pidsMap s) q"
begin

text \<open>
  The invariant of an interleaving that began in the registry \<open>m\<close>: the entry of the caller fits,
  the others are those of \<open>m\<close>, but for the processes whose entry a death has erased.
\<close>

definition beside :: "u32 set \<Rightarrow> (u32 \<Rightarrow> service_data option) \<Rightarrow> 'p \<times> deaths \<times> epm \<Rightarrow> bool" where
  "beside D m w \<longleftrightarrow> (case w of (p, ds, s) \<Rightarrow>
     dying ds = D \<and> pid \<notin> D \<and> pm_inv (pidsMap s) \<and> fits p (pm_find (pidsMap s) pid) \<and>
     (\<forall>q. q \<noteq> pid \<longrightarrow> q \<notin> D \<longrightarrow> pm_find (pidsMap s) q = m q) \<and>
     (\<forall>(n, x)\<in>set ds. x \<noteq> DieErase \<longrightarrow> pm_find (pidsMap s) (mPid n) = None))"

lemma beside_serve:
  assumes "beside D m (p, ds, s)"
  shows "beside D m (take_turn E step Serve (p, ds, s))"
proof -
  obtain p' s' where st: "step p s = (p', s')" by fastforce
  have "\<And>n x. (n, x) \<in> set ds \<Longrightarrow> mPid n \<noteq> pid" using assms by (auto simp: beside_def dest: mem_dying)
  with assms st show ?thesis
    using step_fits [OF _ _ st] step_inv [OF _ st] step_others [OF _ st]
    by (fastforce simp: beside_def)
qed

lemma beside_bury:
  assumes "beside D m (p, ds, s)"
  shows "beside D m (take_turn E step (Bury i) (p, ds, s))"
proof (cases "i < length ds")
  case True
  obtain n x where i: "ds ! i = (n, x)" by fastforce
  obtain x' s' where st: "die_step E n x s = (x', s')" by fastforce
  note reg = die_registry [OF st]
  have n: "mPid n \<in> D" using assms i nth_mem [OF True] by (auto simp: beside_def dest: mem_dying)
  have inv: "pm_inv (pidsMap s)" using assms by (simp add: beside_def)
  have find: "pm_find (pidsMap s') q = (if x = DieErase \<and> q = mPid n then None else pm_find (pidsMap s) q)" for q
    using reg(1) inv by (simp add: pm.find_erase)
  have "pm_find (pidsMap s') (mPid n) = None"
    using find assms i nth_mem [OF True] by (cases "x = DieErase") (auto simp: beside_def)
  then have "\<forall>(n, x)\<in>set (ds[i := (n, x')]). x \<noteq> DieErase \<longrightarrow> pm_find (pidsMap s') (mPid n) = None"
    using assms find set_update_subset_insert [of ds i "(n, x')"] by (fastforce simp: beside_def)
  moreover have "dying (ds[i := (n, x')]) = D"
    using assms True i by (simp add: beside_def dying_update)
  moreover have "pm_inv (pidsMap s')" using reg(1) inv by (simp add: pm.inv_erase)
  moreover have "pm_find (pidsMap s') q = pm_find (pidsMap s) q" if "q \<notin> D" for q
    using find that n by auto
  moreover have "pid \<notin> D" "fits p (pm_find (pidsMap s) pid)" "\<forall>q. q \<noteq> pid \<longrightarrow> q \<notin> D \<longrightarrow> pm_find (pidsMap s) q = m q"
    using assms by (simp_all add: beside_def)
  ultimately show ?thesis using True i st by (simp add: beside_def)
qed (use assms in simp)

lemma beside_turns: "beside D m w \<Longrightarrow> beside D m (take_turns E step as w)"
proof (induction as arbitrary: w)
  case (Cons a as)
  obtain p ds s where w: "w = (p, ds, s)" by (metis surj_pair)
  show ?case
    using Cons.IH [of "take_turn E step a w"] Cons.prems beside_serve beside_bury
    by (cases a) (auto simp: w simp del: take_turn.simps)
qed simp

lemma dead_gone:
  assumes "beside D m (p, ds, s)" and "\<forall>x\<in>snd ` set ds. x = DieDone" and "q \<in> D"
  shows "pm_find (pidsMap s) q = None"
proof -
  obtain n x where "(n, x) \<in> set ds" "mPid n = q" using assms(1,3) by (auto simp: beside_def dying_def)
  with assms(1,2) show ?thesis by (fastforce simp: beside_def)
qed

text \<open>When all is over: the dead have no uses, the others those of the ledger.\<close>

lemma beside_ledger:
  assumes "beside D (pm_find (pidsMap s)) (p, ds, s')" and "\<forall>x\<in>snd ` set ds. x = DieDone"
    and "ledger_of s' pid = L pid" and "\<And>q. q \<noteq> pid \<Longrightarrow> L q = ledger_of s q"
  shows "ledger_of s' = (\<lambda>q. if q \<in> D then 0 else L q)"
proof
  fix q
  show "ledger_of s' q = (if q \<in> D then 0 else L q)"
    using assms dead_gone [OF assms(1,2), of q] by (cases "q = pid") (auto simp: beside_def ledger_of_def)
qed

lemma beside_start:
  assumes "pm_inv (pidsMap s)" and "fits p (pm_find (pidsMap s) pid)" and "pid \<notin> mPid ` set ns"
  shows "beside (mPid ` set ns) (pm_find (pidsMap s)) (p, map (\<lambda>n. (n, DieErase)) ns, s)"
  using assms by (auto simp: beside_def dying_def image_image)

end

text \<open>A call that comes nearer to its end with every step it makes returns, whatever the deaths do.\<close>

locale bounded_call = own_entry step pid fits
    for step :: "'p \<Rightarrow> epm \<Rightarrow> 'p \<times> epm" and pid and fits +
  fixes rank :: "'p \<Rightarrow> nat"
  assumes step_rank: "step p s = (p', s') \<Longrightarrow> rank p' \<le> rank p - 1"
begin

lemma turns_rank: "rank (fst (take_turns E step as w)) \<le> rank (fst w) - count_list as Serve"
proof (induction as arbitrary: w)
  case (Cons a as)
  obtain p ds s where w: "w = (p, ds, s)" by (metis surj_pair)
  have "rank (fst (take_turn E step a w)) \<le> (if a = Serve then rank p - 1 else rank p)"
    using step_rank [of p s] by (cases a) (auto simp: w split: prod.split)
  with Cons.IH [of "take_turn E step a w"] show ?case by (auto simp: w split: if_splits)
qed simp

end

subsection \<open>\<open>powerOff\<close> beside deaths\<close>

abbreviation lowered :: "service_data \<Rightarrow> service_data" where
  "lowered d \<equiv> d\<lparr>client_threadCount := client_threadCount d - 1\<rparr>"

text \<open>The entry of the caller after the call, from the entry before it.\<close>

definition given_back :: "caller \<Rightarrow> service_data option \<Rightarrow> service_data option" where
  "given_back c e = (if bad_uid (calling_uid c) then e else case e of None \<Rightarrow> None
     | Some d \<Rightarrow> if is_pos (client_threadCount (lowered d)) then Some (lowered d) else None)"

fun off_fits :: "caller \<Rightarrow> service_data option \<Rightarrow> off_point \<Rightarrow> service_data option \<Rightarrow> bool" where
  "off_fits c e0 OffUid e \<longleftrightarrow> e = e0"
| "off_fits c e0 OffCount e \<longleftrightarrow> e = e0 \<and> \<not> bad_uid (calling_uid c)"
| "off_fits c e0 OffTest e \<longleftrightarrow> \<not> bad_uid (calling_uid c) \<and> (\<exists>d. e0 = Some d \<and> e = Some (lowered d))"
| "off_fits c e0 OffLog e \<longleftrightarrow> e \<noteq> None \<and> e = given_back c e0"
| "off_fits c e0 OffErase e \<longleftrightarrow> given_back c e0 = None"
| "off_fits c e0 (OffDone r) e \<longleftrightarrow> e = given_back c e0"
| "off_fits c e0 OffCrashed e \<longleftrightarrow> False"
| "off_fits c e0 p e \<longleftrightarrow> (if p \<in> {OffCallback, OffNotifier, OffUnlink, OffLower}
     then e = e0 \<and> \<not> bad_uid (calling_uid c) \<and> (\<exists>d. e0 = Some d \<and> (p = OffUnlink \<longrightarrow> l_serviceCb d \<noteq> None) \<and>
       (p = OffNotifier \<longrightarrow> l_serviceCb d \<noteq> None))
     else e = None \<and> given_back c e0 = None)"

lemma subscript_pids:
  "subscript pid s = (d, s') \<Longrightarrow> pm_inv (pidsMap s) \<Longrightarrow> pm_inv (pidsMap s') \<and>
    pm_find (pidsMap s') = (pm_find (pidsMap s))(pid \<mapsto> d) \<and>
    d = (case pm_find (pidsMap s) pid of None \<Rightarrow> no_data | Some d \<Rightarrow> d)"
  by (auto simp: subscript_def pm.inv_insert pm.find_insert fun_eq_iff split: option.splits)

lemma touch_pids:
  assumes "pm_inv (pidsMap s)"
  shows "pm_inv (pidsMap (snd (subscript pid s))) \<and> pm_find (pidsMap (snd (subscript pid s))) =
    (pm_find (pidsMap s))(pid \<mapsto> (case pm_find (pidsMap s) pid of None \<Rightarrow> no_data | Some d \<Rightarrow> d))"
  using subscript_pids [OF prod.collapse [symmetric], of s pid] assms by simp

lemma add_count_pids:
  "pm_inv (pidsMap s) \<Longrightarrow> pm_inv (pidsMap (add_count pid k s)) \<and>
    pm_find (pidsMap (add_count pid k s)) = (pm_find (pidsMap s))(pid \<mapsto>
      (let d = (case pm_find (pidsMap s) pid of None \<Rightarrow> no_data | Some d \<Rightarrow> d)
       in d\<lparr>client_threadCount := client_threadCount d + k\<rparr>))"
  by (auto simp: add_count_def Let_def pm.inv_assign pm.find_assign fun_eq_iff split: prod.split
      dest!: subscript_pids)

lemma call_pids [simp]:
  "pidsMap (do_unlink b n s) = pidsMap s" "pidsMap (close_node E s) = pidsMap s"
  by (simp_all add: do_unlink_def)

lemma open_failed: "ensure_open E s = (Inl fd, s') \<Longrightarrow> is_neg fd"
  by (auto simp: ensure_open_def Let_def split: prod.splits if_splits)

lemma call_pids_dest:
  "do_get_status E i s = (x, s') \<Longrightarrow> pidsMap s' = pidsMap s" "do_ioctl E cmd a s = (r, s') \<Longrightarrow> pidsMap s' = pidsMap s"
  "do_link E b n s = (r, s') \<Longrightarrow> pidsMap s' = pidsMap s" "ensure_open E s = (y, s') \<Longrightarrow> pidsMap s' = pidsMap s \<and> (\<forall>fd. y = Inl fd \<longrightarrow> is_neg fd)"
  "isPowerOnAllowed E s = (ok, s') \<Longrightarrow> pidsMap s' = pidsMap s" "getState E s = (r, s') \<Longrightarrow> pidsMap s' = pidsMap s"
  by (auto simp: same_reg_def dest: reg_calls reg_allowed reg_getState open_failed)

lemma off_step_pids:
  assumes "off_step E c p s = (p', s')" and "pm_inv (pidsMap s)"
  shows "pm_inv (pidsMap s') \<and> (\<forall>q. q \<noteq> calling_pid c \<longrightarrow> pm_find (pidsMap s') q = pm_find (pidsMap s) q)"
  using assms
  by (cases p)
    (auto simp: pm.inv_erase pm.find_erase add_count_pids touch_pids Let_def split: prod.splits option.splits if_splits
      dest!: subscript_pids call_pids_dest)

lemma off_step_fits:
  assumes "pm_inv (pidsMap s)" and "off_fits c e0 p (pm_find (pidsMap s) (calling_pid c))"
    and "off_step E c p s = (p', s')"
  shows "off_fits c e0 p' (pm_find (pidsMap s') (calling_pid c))"
  using assms
  by (cases p)
    (auto simp: pm.inv_erase pm.find_erase add_count_pids touch_pids Let_def given_back_def count_zero
      split: prod.splits option.splits if_splits dest!: subscript_pids call_pids_dest)

fun off_rank :: "off_point \<Rightarrow> nat" where
  "off_rank OffUid = 13" | "off_rank OffCount = 12" | "off_rank OffCallback = 11" | "off_rank OffNotifier = 10"
| "off_rank OffUnlink = 9" | "off_rank OffLower = 8" | "off_rank OffTest = 7" | "off_rank OffLog = 1"
| "off_rank OffErase = 6" | "off_rank OffEmpty = 5" | "off_rank OffNode = 4" | "off_rank OffStatus = 3"
| "off_rank OffPower = 2" | "off_rank OffClose = 1" | "off_rank p = 0"

lemma off_rank_zero: "off_rank p = 0 \<longleftrightarrow> p = OffCrashed \<or> (\<exists>r. p = OffDone r)"
  by (cases p) auto

interpretation off: bounded_call "off_step E c" "calling_pid c" "off_fits c e0" off_rank for E c e0
proof (unfold_locales, goal_cases)
  case (4 p s p' s')
  then show ?case by (cases p) (auto simp: Let_def split: prod.splits option.splits if_splits)
qed (blast intro: off_step_fits dest: off_step_pids)+

subsection \<open>The power beside a \<open>powerOff\<close>\<close>

text \<open>
  Neither \<open>powerOff\<close> nor a death registers anybody or switches on, so an empty registry stays empty,
  and who has emptied it is on the way to switch off.
\<close>

definition dying_at :: "die_point set \<Rightarrow> deaths \<Rightarrow> bool" where
  "dying_at X ds \<longleftrightarrow> (\<exists>(n, x)\<in>set ds. x \<in> X)"

definition power_fits :: "off_point \<times> deaths \<times> epm \<Rightarrow> bool" where
  "power_fits w \<longleftrightarrow> (case w of (p, ds, s) \<Rightarrow>
     (pidsMap s \<noteq> [] \<longrightarrow> powered (trace s)) \<and> (powered (trace s) \<longrightarrow> \<not> is_neg (nq_node s)) \<and>
     (pidsMap s = [] \<longrightarrow> powered (trace s) \<longrightarrow>
        p \<in> {OffEmpty, OffNode, OffStatus, OffPower} \<or> dying_at {DieEmpty, DieNode, DiePower} ds) \<and>
     (p \<in> {OffNode, OffStatus, OffPower, OffClose} \<or> dying_at {DieNode, DiePower} ds \<longrightarrow> pidsMap s = []) \<and>
     (p = OffClose \<longrightarrow> \<not> powered (trace s)))"

text \<open>A death that moves: the others stay where they are.\<close>

lemma dying_at_update:
  assumes "i < length ds" and "ds ! i = (n, x)"
  obtains rest where "\<And>X. dying_at X ds \<longleftrightarrow> x \<in> X \<or> dying_at X rest"
    and "\<And>X x'. dying_at X (ds[i := (n, x')]) \<longleftrightarrow> x' \<in> X \<or> dying_at X rest"
proof (rule that [of "take i ds @ drop (Suc i) ds"])
  show "dying_at X ds \<longleftrightarrow> x \<in> X \<or> dying_at X (take i ds @ drop (Suc i) ds)" for X
    using arg_cong [OF id_take_nth_drop [OF assms(1)], of "dying_at X"] assms(2) by (auto simp: dying_at_def)
  show "dying_at X (ds[i := (n, x')]) \<longleftrightarrow> x' \<in> X \<or> dying_at X (take i ds @ drop (Suc i) ds)" for X x'
    using assms(1) by (auto simp: upd_conv_take_nth_drop dying_at_def)
qed

lemma empty_frames [simp]:
  "pm_find (pidsMap s) pid = Some d \<Longrightarrow> pidsMap (snd (subscript pid s)) = pidsMap s"
  "powered (trace (snd (subscript pid s))) = powered (trace s)" "nq_node (snd (subscript pid s)) = nq_node s"
  "powered (trace (add_count pid k s)) = powered (trace s)" "nq_node (add_count pid k s) = nq_node s"
  "pidsMap (add_count pid k s) \<noteq> []"
  by (auto simp: subscript_def add_count_def Let_def pm_nonempty split: option.split)

lemma found_nonempty: "pm_find m p = Some d \<Longrightarrow> m \<noteq> []"
  by auto

lemma power_serve:
  assumes "driver_works E" and "power_fits (p, ds, s)"
    and "off_fits c e0 p (pm_find (pidsMap s) (calling_pid c))"
  shows "power_fits (take_turn E (off_step E c) Serve (p, ds, s))"
proof -
  obtain r v where g: "do_get_status E (- 1) s = ((r, v), s\<lparr>trace := EvGetStatus (nq_node s) r (Some v) # trace s\<rparr>)"
    "\<not> fw_downloading v" using works_status [OF assms(1)] by metis
  obtain r' where i: "do_ioctl E P61_SET_SPM_PWR 0 s = (r', s\<lparr>trace := EvIoctl (nq_node s) P61_SET_SPM_PWR 0 r' # trace s\<rparr>)"
    "\<not> is_neg r'" using works_ioctl [OF assms(1)] by blast
  show ?thesis
  proof (cases "p \<in> {OffCallback, OffNotifier, OffUnlink, OffLower, OffTest, OffLog}")
    case True
    then have "pm_find (pidsMap s) (calling_pid c) \<noteq> None" using assms(3) by (auto; metis)
    then obtain d where d: "pm_find (pidsMap s) (calling_pid c) = Some d" by auto
    obtain p' s' where st: "off_step E c p s = (p', s')" by fastforce
    have "powered (trace s') = powered (trace s)" "nq_node s' = nq_node s" "pidsMap s' \<noteq> []"
      "p' \<notin> {OffNode, OffStatus, OffPower, OffClose}"
      using True d st found_nonempty [OF d]
      by (auto simp: subscript_hit do_unlink_def split: option.splits if_splits)
    with assms(2) True found_nonempty [OF d] show ?thesis by (simp add: power_fits_def st)
  next
    case False
    with assms(2) g i show ?thesis
      by (cases p; cases "pidsMap s = []") (simp_all add: power_fits_def isPidsMapEmpty_def pm_is_empty_def)
  qed
qed

lemma power_bury:
  assumes "driver_works E" and "power_fits (p, ds, s)"
  shows "power_fits (take_turn E step (Bury i) (p, ds, s))"
proof (cases "i < length ds")
  case True
  obtain n x where d: "ds ! i = (n, x)" by fastforce
  obtain r where io: "do_ioctl E P61_SET_SPM_PWR 0 s = (r, s\<lparr>trace := EvIoctl (nq_node s) P61_SET_SPM_PWR 0 r # trace s\<rparr>)"
    "\<not> is_neg r" using works_ioctl [OF assms(1)] by blast
  obtain rest where rest: "\<And>X. dying_at X ds \<longleftrightarrow> x \<in> X \<or> dying_at X rest"
    "\<And>X x'. dying_at X (ds[i := (n, x')]) \<longleftrightarrow> x' \<in> X \<or> dying_at X rest"
    using dying_at_update [OF True d] by blast
  show ?thesis
    using assms(2) True d io
    by (cases x; cases "pidsMap s = []") (auto simp: power_fits_def rest isPidsMapEmpty_def pm_is_empty_def)
qed (use assms in simp)

lemma power_turns:
  assumes "driver_works E"
  shows "off.beside c e0 D m w \<Longrightarrow> power_fits w \<Longrightarrow> power_fits (take_turns E (off_step E c) as w)"
proof (induction as arbitrary: w)
  case (Cons a as)
  obtain p ds s where w: "w = (p, ds, s)" by (metis surj_pair)
  have "power_fits (take_turn E (off_step E c) a w)"
    using Cons.prems power_serve [OF assms] power_bury [OF assms]
    by (cases a) (auto simp: w off.beside_def simp del: take_turn.simps)
  moreover have "off.beside c e0 D m (take_turns E (off_step E c) [a] w)"
    by (rule off.beside_turns [OF Cons.prems(1)])
  ultimately show ?case using Cons.IH by simp
qed simp

lemma power_settled:
  assumes "power_fits (OffDone r, ds, s)" and "\<forall>x\<in>snd ` set ds. x = DieDone"
  shows "powered (trace s) \<longleftrightarrow> pidsMap s \<noteq> []"
proof -
  have "\<not> dying_at {DieEmpty, DieNode, DiePower} ds" using assms(2) by (fastforce simp: dying_at_def)
  with assms(1) show ?thesis by (auto simp: power_fits_def)
qed

text \<open>The registry after all of it: the dead are gone, the others are counted as the ledger says.\<close>

lemma ledger_given_back:
  assumes "pm_find (pidsMap s) (calling_pid c) = entry_of"
    and "\<And>d. entry_of = Some d \<Longrightarrow> 1 \<le> sint (client_threadCount d)"
    and "pm_find (pidsMap s') (calling_pid c) = given_back c entry_of"
  shows "ledger_of s' (calling_pid c) = ledger_step (ReqPowerOff c) r (ledger_of s) (calling_pid c)"
proof (cases entry_of)
  case None
  then show ?thesis using assms by (auto simp: ledger_of_def given_back_def)
next
  case (Some d)
  with assms(2) have d: "1 \<le> sint (client_threadCount d)" by simp
  then have "sint (client_threadCount d - 1) = sint (client_threadCount d) - 1" by (intro sint_dec) simp
  then show ?thesis using assms(1,3) Some d
    by (auto simp: ledger_of_def given_back_def is_pos_def nat_diff_distrib)
qed

text \<open>C9.  Deaths of other clients do not disturb a \<open>powerOff\<close>: in every schedule that lets their steps
  come between its own the call does not crash, it has returned after 13 of its steps, and, when it
  and the deaths are over, the uses are those of the calls one after the other: the dead processes
  have none, every other process has what the ledger says.  While the driver works, the element is
  then powered exactly if somebody is registered.\<close>

theorem deaths_beside_powerOff:
  assumes "reaches E k s" and "k < 2 ^ 31" and "calling_pid c \<notin> mPid ` set ns"
    and "take_turns E (off_step E c) sch (OffUid, map (\<lambda>n. (n, DieErase)) ns, s) = (p, ds, s')"
  shows "p \<noteq> OffCrashed \<and> (13 \<le> count_list sch Serve \<longrightarrow> (\<exists>r. p = OffDone r)) \<and>
    (\<forall>r. p = OffDone r \<and> (\<forall>x\<in>snd ` set ds. x = DieDone) \<longrightarrow>
       ledger_of s' = (\<lambda>q. if q \<in> mPid ` set ns then 0 else ledger_step (ReqPowerOff c) r (ledger_of s) q) \<and>
       (driver_works E \<longrightarrow> (powered (trace s') \<longleftrightarrow> pidsMap s' \<noteq> [])))"
proof -
  have reg: "reg_inv k s" using assms(1,2) by (rule reaches_reg_inv)
  let ?e = "pm_find (pidsMap s) (calling_pid c)" and ?w = "(OffUid, map (\<lambda>n. (n, DieErase)) ns, s)"
  have b0: "off.beside c ?e (mPid ` set ns) (pm_find (pidsMap s)) ?w"
    using reg assms(3) by (intro off.beside_start) (auto simp: reg_inv_def map_ok_def)
  have b: "off.beside c ?e (mPid ` set ns) (pm_find (pidsMap s)) (p, ds, s')"
    using off.beside_turns [OF b0] assms(4) by metis
  then have live: "p \<noteq> OffCrashed" by (auto simp: off.beside_def)
  have "off_rank (fst (take_turns E (off_step E c) sch (OffUid, map (\<lambda>n. (n, DieErase)) ns, s))) \<le>
      off_rank (fst (OffUid, map (\<lambda>n. (n, DieErase)) ns, s)) - count_list sch Serve"
    by (rule off.turns_rank)
  then have "off_rank p \<le> 13 - count_list sch Serve" using assms(4) by simp
  then have "13 \<le> count_list sch Serve \<longrightarrow> (\<exists>r. p = OffDone r)" using live off_rank_zero [of p] by auto
  moreover have "ledger_of s' = (\<lambda>q. if q \<in> mPid ` set ns then 0 else ledger_step (ReqPowerOff c) r (ledger_of s) q)"
    if "p = OffDone r" "\<forall>x\<in>snd ` set ds. x = DieDone" for r
  proof (rule off.beside_ledger [OF b that(2)])
    show "ledger_of s' (calling_pid c) = ledger_step (ReqPowerOff c) r (ledger_of s) (calling_pid c)"
      using that(1) b reg ledger_given_back [OF refl, of s c s' r]
      by (auto simp: off.beside_def reg_inv_def map_ok_def entry_ok_def)
  qed auto
  moreover have "powered (trace s') \<longleftrightarrow> pidsMap s' \<noteq> []"
    if "p = OffDone r" "\<forall>x\<in>snd ` set ds. x = DieDone" "driver_works E" for r
  proof -
    have "exact s"
      using assms(1) by (rule reaches_invariant)
        (simp add: exact_def epm_init_def pm_empty_def, rule exact_step [OF that(3)])
    then have "power_fits ?w" by (auto simp: exact_def power_fits_def dying_at_def)
    then have "power_fits (p, ds, s')" using power_turns [OF that(3) b0] assms(4) by metis
    with that(1,2) show ?thesis by (intro power_settled) simp_all
  qed
  ultimately show ?thesis using live by auto
qed

text \<open>The last use of a process is given back while another client's death is handled: the death finds
  the registry still occupied.\<close>

lemma deaths_beside_powerOff_witness:
  "\<exists>s'. take_turns good_env (off_step good_env some_client)
      ([Bury 0, Serve, Serve, Bury 0] @ replicate 11 Serve) (OffUid, [(ClientDiedNotifier 7 0, DieErase)], after_on) =
      (OffDone 0, [(ClientDiedNotifier 7 0, DieDone)], s') \<and> ledger_of s' 42 = 0 \<and> (powered (trace s') \<longleftrightarrow> pidsMap s' \<noteq> [])"
proof -
  let ?w = "take_turns good_env (off_step good_env some_client) ([Bury 0, Serve, Serve, Bury 0] @ replicate 11 Serve)
      (OffUid, map (\<lambda>n. (n, DieErase)) [ClientDiedNotifier 7 0], after_on)"
  have "fst ?w = OffDone 0 \<and> fst (snd ?w) = [(ClientDiedNotifier 7 0, DieDone)]" by code_simp
  then obtain s' where w: "?w = (OffDone 0, [(ClientDiedNotifier 7 0, DieDone)], s')" by (metis prod.collapse)
  then have "ledger_of s' 42 = 0 \<and> (powered (trace s') \<longleftrightarrow> pidsMap s' \<noteq> [])"
    using deaths_beside_powerOff [OF reaches_after_on _ _ w] willing_works [OF good_env_willing]
    by (simp add: after_on_uses)
  with w show ?thesis by (intro exI [of _ s']) (simp only: list.map simp_thms)
qed

subsection \<open>\<open>powerOn\<close> beside deaths\<close>

text \<open>The entry of the caller after the call: one more use when it returned 1.\<close>

definition taken_up :: "service_data option \<Rightarrow> i32 \<Rightarrow> service_data option \<Rightarrow> bool" where
  "taken_up e0 r e \<longleftrightarrow> (if r = 1 then \<exists>d. e = Some d \<and> client_threadCount d =
       (case e0 of None \<Rightarrow> 1 | Some d0 \<Rightarrow> client_threadCount d0 + 1) else e = e0)"

fun on_fits :: "service_data option \<Rightarrow> on_point \<Rightarrow> service_data option \<Rightarrow> bool" where
  "on_fits e0 (OnInsert data) e \<longleftrightarrow> e = None \<and> e0 = None \<and> client_threadCount data = 1"
| "on_fits e0 OnRaise e \<longleftrightarrow> e = e0 \<and> e \<noteq> None"
| "on_fits e0 OnRead e \<longleftrightarrow> taken_up e0 1 e"
| "on_fits e0 (OnDone r) e \<longleftrightarrow> taken_up e0 r e"
| "on_fits e0 p e \<longleftrightarrow> e = e0"

fun on_rank :: "on_point \<Rightarrow> nat" where
  "on_rank OnAllowed = 11" | "on_rank OnGetState = 1" | "on_rank OnUid = 10" | "on_rank OnOpen = 9"
| "on_rank OnStatus = 8" | "on_rank OnScheme = 7" | "on_rank OnPower = 6" | "on_rank OnNotifier = 5"
| "on_rank OnAlone = 3" | "on_rank OnSwitchOff = 2" | "on_rank OnClose = 1" | "on_rank (OnLink b n) = 4"
| "on_rank (OnCount d) = 3" | "on_rank (OnInsert d) = 1" | "on_rank OnRaise = 2" | "on_rank OnRead = 1"
| "on_rank (OnDone r) = 0"

lemma on_rank_zero: "on_rank p = 0 \<longleftrightarrow> (\<exists>r. p = OnDone r)"
  by (cases p) auto

lemma early_not_one:
  "taken_up e (- 1) e" "taken_up e PERMISSION_DENIED e" "taken_up e (- EBUSY) e" "is_neg r \<Longrightarrow> taken_up e r e"
  by (auto simp: taken_up_def PERMISSION_DENIED_def EBUSY_def)

lemma on_step_pids:
  assumes "on_step E c cb p s = (p', s')" and "pm_inv (pidsMap s)"
  shows "pm_inv (pidsMap s') \<and> (\<forall>q. q \<noteq> calling_pid c \<longrightarrow> pm_find (pidsMap s') q = pm_find (pidsMap s) q)"
  using assms call_pids_dest(6) [OF prod.collapse [symmetric], of E s]
  by (cases p)
    (auto simp: pm.inv_insert pm.find_insert add_count_pids touch_pids Let_def
      split: prod.splits option.splits sum.splits if_splits dest!: subscript_pids call_pids_dest)

lemma on_step_fits:
  assumes "pm_inv (pidsMap s)" and "on_fits e0 p (pm_find (pidsMap s) (calling_pid c))"
    and "on_step E c cb p s = (p', s')"
  shows "on_fits e0 p' (pm_find (pidsMap s') (calling_pid c))"
  using assms call_pids_dest(6) [OF prod.collapse [symmetric], of E s]
  by (cases p)
    (auto simp: pm.find_insert add_count_pids touch_pids Let_def count_zero early_not_one taken_up_def [where r = 1]
      split: prod.splits option.splits sum.splits if_splits dest!: subscript_pids call_pids_dest)

interpretation on: bounded_call "on_step E c cb" "calling_pid c" "on_fits e0" on_rank for E c cb e0
proof (unfold_locales, goal_cases)
  case (4 p s p' s')
  then show ?case by (cases p) (auto simp: Let_def split: prod.splits option.splits sum.splits if_splits)
qed (blast intro: on_step_fits dest: on_step_pids)+

lemma ledger_taken_up:
  assumes "pm_find (pidsMap s) (calling_pid c) = e"
    and "\<And>d. e = Some d \<Longrightarrow> 1 \<le> sint (client_threadCount d) \<and> sint (client_threadCount d) < 2 ^ 31 - 1"
    and "taken_up e r (pm_find (pidsMap s') (calling_pid c))"
  shows "ledger_of s' (calling_pid c) = ledger_step (ReqPowerOn c cb) r (ledger_of s) (calling_pid c)"
proof (cases e)
  case None
  then show ?thesis using assms by (auto simp: ledger_of_def taken_up_def)
next
  case (Some d)
  with assms(2) have "sint (client_threadCount d + 1) = sint (client_threadCount d) + 1" by (intro sint_inc) simp
  with Some assms show ?thesis
    by (auto simp: ledger_of_def taken_up_def Suc_nat_eq_nat_zadd1 add.commute)
qed

text \<open>C10.  Nor do they disturb a \<open>powerOn\<close>: in every schedule it has returned after 11 of its steps, and,
  when it and the deaths are over, the uses are again those of the ledger, with one more for the
  caller exactly when it returned 1.\<close>

theorem deaths_beside_powerOn:
  assumes "reaches E k s" and "k < 2 ^ 31 - 1" and "calling_pid c \<notin> mPid ` set ns"
    and "take_turns E (on_step E c cb) sch (OnAllowed, map (\<lambda>n. (n, DieErase)) ns, s) = (p, ds, s')"
  shows "(11 \<le> count_list sch Serve \<longrightarrow> (\<exists>r. p = OnDone r)) \<and>
    (\<forall>r. p = OnDone r \<and> (\<forall>x\<in>snd ` set ds. x = DieDone) \<longrightarrow>
       ledger_of s' = (\<lambda>q. if q \<in> mPid ` set ns then 0 else ledger_step (ReqPowerOn c cb) r (ledger_of s) q))"
proof -
  have reg: "reg_inv k s" using assms(1,2) by (intro reaches_reg_inv) auto
  let ?e = "pm_find (pidsMap s) (calling_pid c)"
  have b: "on.beside c ?e (mPid ` set ns) (pm_find (pidsMap s)) (p, ds, s')"
    using on.beside_turns [OF on.beside_start, of s ?e OnAllowed c ns] reg assms(3,4)
    by (metis map_ok_def on_fits.simps(5) reg_inv_def)
  have "on_rank (fst (take_turns E (on_step E c cb) sch (OnAllowed, map (\<lambda>n. (n, DieErase)) ns, s))) \<le>
      on_rank (fst (OnAllowed, map (\<lambda>n. (n, DieErase)) ns, s)) - count_list sch Serve"
    by (rule on.turns_rank)
  then have "on_rank p \<le> 11 - count_list sch Serve" using assms(4) by simp
  then have "11 \<le> count_list sch Serve \<longrightarrow> (\<exists>r. p = OnDone r)" using on_rank_zero [of p] by auto
  moreover have "ledger_of s' = (\<lambda>q. if q \<in> mPid ` set ns then 0 else ledger_step (ReqPowerOn c cb) r (ledger_of s) q)"
    if "p = OnDone r" "\<forall>x\<in>snd ` set ds. x = DieDone" for r
  proof (rule on.beside_ledger [OF b that(2)])
    show "ledger_of s' (calling_pid c) = ledger_step (ReqPowerOn c cb) r (ledger_of s) (calling_pid c)"
      using that(1) b reg assms(2) ledger_taken_up [OF refl, of s c r s' cb]
      by (force simp: on.beside_def reg_inv_def map_ok_def entry_ok_def)
  qed auto
  ultimately show ?thesis by auto
qed

text \<open>A second use of a process, with another client's death in the middle.\<close>

lemma deaths_beside_powerOn_witness:
  "\<exists>s'. take_turns good_env (on_step good_env some_client (Some 8))
      (replicate 4 Serve @ [Bury 0] @ replicate 7 Serve @ [Bury 0])
      (OnAllowed, [(ClientDiedNotifier 7 0, DieErase)], after_on) =
      (OnDone 1, [(ClientDiedNotifier 7 0, DieDone)], s') \<and> ledger_of s' 42 = 2"
proof -
  let ?w = "take_turns good_env (on_step good_env some_client (Some 8))
      (replicate 4 Serve @ [Bury 0] @ replicate 7 Serve @ [Bury 0])
      (OnAllowed, map (\<lambda>n. (n, DieErase)) [ClientDiedNotifier 7 0], after_on)"
  have "fst ?w = OnDone 1 \<and> fst (snd ?w) = [(ClientDiedNotifier 7 0, DieDone)]" by code_simp
  then obtain s' where w: "?w = (OnDone 1, [(ClientDiedNotifier 7 0, DieDone)], s')" by (metis prod.collapse)
  then have "ledger_of s' 42 = 2"
    using deaths_beside_powerOn [OF reaches_after_on _ _ w] by (simp add: after_on_uses)
  with w show ?thesis by (intro exI [of _ s']) (simp only: list.map simp_thms)
qed

subsection \<open>The death of the caller itself\<close>

lemma held_entry:
  assumes "reaches E k s" and "k < 2 ^ 31" and "0 < ledger_of s p"
  obtains d b n where "pm_find (pidsMap s) p = Some d" and "l_serviceCb d = Some b" and "l_deathNotifier d = Some n"
    and "ledger_of s p = nat (sint (client_threadCount d))" and "pm_inv (pidsMap s)"
  using reaches_reg_inv [OF assms(1,2)] assms(3)
  by (cases "pm_find (pidsMap s) p") (fastforce simp: ledger_of_def reg_inv_def map_ok_def entry_ok_def)+

text \<open>C30.  A process that is killed while its \<open>powerOff\<close> is served takes the daemon with it: if the
  death erases the entry behind the tests of the callback, the call dereferences the null
  callback of the entry its subscript then inserts.\<close>

theorem own_death_crashes:
  fixes c :: caller
  assumes "reaches E k s" and "k < 2 ^ 31" and "\<not> bad_uid (calling_uid c)" and "0 < ledger_of s (calling_pid c)"
    and "mPid n = calling_pid c"
  shows "\<exists>sch. fst (take_turns E (off_step E c) sch (OffUid, [(n, DieErase)], s)) = OffCrashed"
proof -
  obtain d b m where d: "pm_find (pidsMap s) (calling_pid c) = Some d" "l_serviceCb d = Some b"
    "l_deathNotifier d = Some m" "pm_inv (pidsMap s)" by (rule held_entry [OF assms(1,2,4)])
  have "fst (take_turns E (off_step E c) [Serve, Serve, Serve, Serve, Bury 0, Serve] (OffUid, [(n, DieErase)], s)) =
      OffCrashed"
    using assms(3,5) d by (simp add: count_zero subscript_def pm.find_erase no_data_def)
  then show ?thesis by blast
qed

lemma own_death_crashes_witness:
  "\<exists>sch. fst (take_turns good_env (off_step good_env some_client) sch
     (OffUid, [(ClientDiedNotifier 42 0, DieErase)], after_on)) = OffCrashed"
  using own_death_crashes [OF reaches_after_on, of some_client "ClientDiedNotifier 42 0"] by (simp add: after_on_uses)

text \<open>Requests that spare a process leave an entry for it where there is one, whatever is in it.\<close>

definition entered :: "u32 \<Rightarrow> epm \<Rightarrow> bool" where
  "entered p s \<longleftrightarrow> pm_inv (pidsMap s) \<and> pm_find (pidsMap s) p \<noteq> None"

lemma entered_enrol: "pm_inv m \<Longrightarrow> pm_find m p \<noteq> None \<Longrightarrow> pm_inv (enrol q d m) \<and> pm_find (enrol q d m) p \<noteq> None"
  by (auto simp: enrol_def pm.inv_insert pm.inv_assign pm.find_insert pm.find_assign split: option.splits)

lemma entered_withdraw:
  "pm_inv m \<Longrightarrow> pm_find m p \<noteq> None \<Longrightarrow> p \<noteq> q \<Longrightarrow> pm_inv (withdraw q d m) \<and> pm_find (withdraw q d m) p \<noteq> None"
  by (auto simp: withdraw_def Let_def pm.inv_assign pm.inv_erase pm.find_assign pm.find_erase)

lemma entered_step:
  assumes "epm_step E s r ret s'" and "spares p r" and "entered p s"
  shows "entered p s'"
  using assms
proof (cases rule: epm_step.cases)
  case (on c cb)
  with assms(3) powerOn_registry [OF on(2)] show ?thesis
    using entered_enrol [of "pidsMap s" p] by (auto simp: entered_def)
next
  case (off c)
  with assms(2,3) powerOff_registry [OF off(2)] show ?thesis
    using entered_withdraw [of "pidsMap s" p] by (fastforce simp: entered_def split: if_splits option.splits)
next
  case state
  with assms(3) reg_getState [OF state(2)] show ?thesis by (simp add: entered_def same_reg_def)
next
  case (kill c)
  with assms(2,3) killall_registry [OF kill(2)] show ?thesis by (simp add: entered_def)
next
  case binding
  with assms(3) reg_binding [OF binding(2)] show ?thesis by (simp add: entered_def same_reg_def)
next
  case (died n)
  with assms(2,3) binderDied_registry [of E n s] show ?thesis by (auto simp: entered_def pm.inv_erase pm.find_erase)
qed

lemma entered_powered_steps:
  assumes "epm_steps E s rs s'" and "driver_truthful E" and "list_all (spares p) rs"
    and "entered p s" and "powered (trace s)"
  shows "entered p s' \<and> powered (trace s')"
  using assms
proof (induction rule: epm_steps.induct)
  case (more s r ret s1 rs s')
  have "entered p s1" using entered_step [OF more.hyps(1)] more.prems by simp
  moreover have "powered (trace s1)"
    using power_inv_step [OF more.prems(1) more.hyps(1)] more.prems(4) calculation
    by (auto simp: entered_def pm_find_def)
  ultimately show ?case using more by simp
qed simp

text \<open>C31.  A process that is killed in the middle of a \<open>powerOff\<close> that leaves it further uses can stay
  registered for ever: the log line of the call reads \<open>pidsMap[pid]\<close> and so enters the process again
  behind its death, without a callback.  No request of the others and no death of another process
  takes the entry out, and the element stays powered.\<close>

theorem dead_keeps_power:
  fixes c :: caller
  assumes "driver_truthful E" and "reaches E k s" and "k < 2 ^ 31" and "\<not> bad_uid (calling_uid c)"
    and "1 < ledger_of s (calling_pid c)" and "mPid n = calling_pid c"
  shows "\<exists>sch s'. take_turns E (off_step E c) sch (OffUid, [(n, DieErase)], s) = (OffDone 1, [(n, DieDone)], s') \<and>
    (\<forall>rs s''. epm_steps E s' rs s'' \<and> list_all (spares (calling_pid c)) rs \<longrightarrow>
       pm_find (pidsMap s'') (calling_pid c) \<noteq> None \<and> powered (trace s''))"
proof -
  have used: "0 < ledger_of s (calling_pid c)" using assms(5) by simp
  obtain d b m where d: "pm_find (pidsMap s) (calling_pid c) = Some d" "l_serviceCb d = Some b"
    "l_deathNotifier d = Some m" "ledger_of s (calling_pid c) = nat (sint (client_threadCount d))" "pm_inv (pidsMap s)"
    by (rule held_entry [OF assms(2,3) used])
  have pos: "is_pos (client_threadCount d - 1)"
    using d(4) assms(5) sint_dec [of "client_threadCount d"] by (simp add: is_pos_def)
  have on: "powered (trace s)"
  proof -
    have "pidsMap s \<noteq> [] \<longrightarrow> powered (trace s)"
      using assms(2) by (rule reaches_invariant) (auto simp: epm_init_def pm_empty_def dest: power_inv_step [OF assms(1)])
    with d(1) show ?thesis by (auto simp: pm_find_def)
  qed
  let ?p = "calling_pid c"
  define s1 where "s1 = (do_unlink b m s)\<lparr>pidsMap := pm_assign ?p (lowered d) (pidsMap s)\<rparr>"
  define s2 where "s2 = s1\<lparr>pidsMap := pm_erase ?p (pidsMap s1)\<rparr>"
  define s3 where "s3 = snd (subscript ?p s2)"
  let ?fst = "[Serve, Serve, Serve, Serve, Serve, Serve, Serve]" and ?ds = "[(n, DieErase)]"
  have 1: "take_turns E (off_step E c) ?fst (OffUid, ?ds, s) = (OffLog, ?ds, s1)"
    using assms(4) d(1-3) pos
    by (simp add: count_zero subscript_hit add_count_def do_unlink_def s1_def)
  have s2: "pm_inv (pidsMap s2)" "powered (trace s2)"
    using d(5) on by (simp_all add: s2_def s1_def do_unlink_def pm.inv_erase pm.inv_assign)
  have s3: "entered ?p s3" "powered (trace s3)"
    using touch_pids [OF s2(1), of ?p] s2(2)
    by (auto simp: entered_def s3_def subscript_def split: option.split)
  then have "\<not> isPidsMapEmpty s3" by (auto simp: entered_def isPidsMapEmpty_def pm_is_empty_def pm_find_def)
  then have "take_turns E (off_step E c) [Bury 0, Serve, Bury 0] (OffLog, ?ds, s1) = (OffDone 1, [(n, DieDone)], s3)"
    using assms(6) by (simp add: s2_def [symmetric] s3_def [symmetric])
  then have "take_turns E (off_step E c) (?fst @ [Bury 0, Serve, Bury 0]) (OffUid, ?ds, s) = (OffDone 1, [(n, DieDone)], s3)"
    using 1 by (simp only: turns_append)
  moreover have "pm_find (pidsMap s'') ?p \<noteq> None \<and> powered (trace s'')"
    if "epm_steps E s3 rs s'' \<and> list_all (spares ?p) rs" for rs s''
    using that entered_powered_steps [OF _ assms(1), of s3 rs s'' ?p] s3 by (simp add: entered_def)
  ultimately show ?thesis by blast
qed

text \<open>A process with two uses gives one back and is killed.\<close>

definition after_two :: epm where
  "after_two = snd (powerOn good_env some_client (Some 8) after_on)"

lemma reaches_after_two: "reaches good_env 2 after_two" "ledger_of after_two 42 = 2"
proof -
  have "fst (powerOn good_env some_client (Some 8) after_on) = 1" by code_simp
  then have "powerOn good_env some_client (Some 8) after_on = (1, after_two)" by (simp add: after_two_def prod_eq_iff)
  then show "reaches good_env 2 after_two"
    using reaches.step [OF reaches_after_on, of "ReqPowerOn some_client (Some 8)" 1 after_two]
    by (simp add: numeral_2_eq_2)
  show "ledger_of after_two 42 = 2" by code_simp
qed

lemma dead_keeps_power_witness:
  "\<exists>sch s'. take_turns good_env (off_step good_env some_client) sch
      (OffUid, [(ClientDiedNotifier 42 0, DieErase)], after_two) = (OffDone 1, [(ClientDiedNotifier 42 0, DieDone)], s') \<and>
    powered (trace (snd (getState good_env s')))"
proof -
  obtain sch s' where w: "take_turns good_env (off_step good_env some_client) sch
      (OffUid, [(ClientDiedNotifier 42 0, DieErase)], after_two) = (OffDone 1, [(ClientDiedNotifier 42 0, DieDone)], s')"
    "\<forall>rs s''. epm_steps good_env s' rs s'' \<and> list_all (spares 42) rs \<longrightarrow>
       pm_find (pidsMap s'') 42 \<noteq> None \<and> powered (trace s'')"
    using dead_keeps_power [OF good_env_truthful reaches_after_two(1), of some_client "ClientDiedNotifier 42 0"]
      reaches_after_two(2) by auto
  have "epm_steps good_env s' [ReqGetState] (snd (getState good_env s'))"
    by (auto intro: prod.collapse [symmetric])
  with w show ?thesis by fastforce
qed

subsection \<open>A death around a whole call\<close>

lemma serve_run:
  "take_turns E step (replicate k Serve) (p, ds, s) = (let (p, s) = run_steps step k (p, s) in (p, ds, s))"
  by (induction k arbitrary: p s) (auto split: prod.split)

text \<open>C32.  The power can be lost although no call is interrupted by anything: when the death of the last
  user has found the registry empty, and a new client's whole \<open>powerOn\<close> is served before the death
  goes on to cut the power, the new client has been told 1, is registered, and has no power.\<close>

theorem death_cuts_next_session:
  fixes c :: caller
  assumes "env_willing E" and "\<not> bad_uid (calling_uid c)" and "pidsMap s = [(mPid n, d)]" and "\<not> is_neg (nq_node s)"
  shows "\<exists>s'. take_turns E (on_step E c (Some b)) ([Bury 0, Bury 0, Bury 0] @ replicate 11 Serve @ [Bury 0])
      (OnAllowed, [(n, DieErase)], s) = (OnDone 1, [(n, DieDone)], s') \<and>
    pm_find (pidsMap s') (calling_pid c) \<noteq> None \<and> \<not> powered (trace s')"
proof -
  let ?s1 = "s\<lparr>pidsMap := []\<rparr>"
  have 1: "take_turns E (on_step E c (Some b)) [Bury 0, Bury 0, Bury 0] (OnAllowed, [(n, DieErase)], s) =
      (OnAllowed, [(n, DiePower)], ?s1)"
    using assms(3,4) by (simp add: isPidsMapEmpty_def pm_is_empty_def)
  obtain s2 where on: "powerOn E c (Some b) ?s1 = (1, s2)" "holds_only (calling_pid c) (Suc 0) s2"
    using on_willing [OF assms(1,2), of 0 ?s1 b] by (auto simp: holds_only_def)
  have 2: "take_turns E (on_step E c (Some b)) (replicate 11 Serve) (OnAllowed, [(n, DiePower)], ?s1) =
      (OnDone 1, [(n, DiePower)], s2)"
    using on(1) by (simp only: serve_run on_alone) simp
  define s3 where "s3 = snd (do_ioctl E P61_SET_SPM_PWR 0 s2)"
  have 3: "take_turns E (on_step E c (Some b)) [Bury 0] (OnDone 1, [(n, DiePower)], s2) = (OnDone 1, [(n, DieDone)], s3)"
    by (simp add: s3_def)
  have "pm_find (pidsMap s3) (calling_pid c) \<noteq> None" "\<not> powered (trace s3)"
    using on(2) assms(1) by (auto simp: s3_def holds_only_def do_ioctl_def env_willing_def Let_def)
  with 1 2 3 show ?thesis by (intro exI [of _ s3]) (simp only: turns_append simp_thms)
qed

lemma death_cuts_next_session_witness:
  "\<exists>s'. take_turns good_env (on_step good_env \<lparr>calling_uid = 1000, calling_pid = 43\<rparr> (Some 8))
      ([Bury 0, Bury 0, Bury 0] @ replicate 11 Serve @ [Bury 0]) (OnAllowed, [(ClientDiedNotifier 42 0, DieErase)], after_on) =
      (OnDone 1, [(ClientDiedNotifier 42 0, DieDone)], s') \<and>
    pm_find (pidsMap s') 43 \<noteq> None \<and> \<not> powered (trace s')"
  using death_cuts_next_session [OF good_env_willing, of "\<lparr>calling_uid = 1000, calling_pid = 43\<rparr>" after_on
      "ClientDiedNotifier 42 0" _ 8] uid_some_client(2)
  by (simp add: after_on_def some_client_def del: take_turns.simps)

end
