(* ===== verification/PowerFaults.thy ===== *)
theory PowerFaults
  imports PowerSessions
begin

text \<open>
  The paths on which the power daemon's registry and the device go out of step: a status
  request that fails while the power is being cut, a death link that cannot be made, and
  the death links of a process that powers on more than once, which outlive it and cut the power
  of a later process.
\<close>

subsection \<open>A status request that fails\<close>

text \<open>The driver reports nothing: \<open>ese_current_state\<close> keeps its initial \<open>-1\<close>.\<close>

definition status_silent :: "epm_env \<Rightarrow> bool" where
  "status_silent E \<longleftrightarrow> (\<forall>tr fd. snd (sys_get_status E tr fd) = None)"

lemma silent_status:
  assumes "status_silent E"
  shows "\<exists>r. do_get_status E (- 1) s = ((r, - 1), s\<lparr>trace := EvGetStatus (nq_node s) r None # trace s\<rparr>)"
  using assms
  by (intro exI [of _ "fst (sys_get_status E (trace s) (nq_node s))"])
    (simp add: status_silent_def do_get_status_def split_beta)

lemma powered_unlink [simp]: "powered (trace (unlink_client d s)) = powered (trace s)"
  by (simp add: unlink_client_def do_unlink_def split: option.splits)

lemma unlink_fields [simp]:
  "nq_node (unlink_client d s) = nq_node s" "pidsMap (unlink_client d s) = pidsMap s"
  by (simp_all add: unlink_client_def do_unlink_def split: option.splits)

text \<open>C34.  When the status request fails without writing the state, the last \<open>powerOff\<close>
  of a process removes the process from the registry, answers \<open>-EBUSY\<close> and leaves the power as
  it was: the secure element stays on with nobody registered.\<close>

theorem powerOff_silent_status:
  assumes "status_silent E" and "\<not> bad_uid (calling_uid c)" and "\<not> is_neg (nq_node s)"
    and "pidsMap s = [(calling_pid c, d)]" and "client_threadCount d = 1"
  shows "fst (powerOff E c s) = - EBUSY \<and> pidsMap (snd (powerOff E c s)) = [] \<and>
    powered (trace (snd (powerOff E c s))) = powered (trace s)"
proof -
  let ?s = "unlink_client d s\<lparr>pidsMap := []\<rparr>"
  obtain r where "do_get_status E (- 1) ?s = ((r, - 1), ?s\<lparr>trace := EvGetStatus (nq_node ?s) r None # trace ?s\<rparr>)"
    using silent_status [OF assms(1)] by blast
  with assms show ?thesis
    by (simp add: powerOff_def Let_def pm_find_def isPidsMapEmpty_def pm_is_empty_def power_down_def)
qed

definition silent_env :: epm_env where
  "silent_env = good_env\<lparr>sys_get_status := \<lambda>_ _. (- 1, None)\<rparr>"

lemma powerOff_silent_status_witness:
  "fst (powerOff silent_env some_client after_on) = - EBUSY \<and>
    pidsMap (snd (powerOff silent_env some_client after_on)) = [] \<and>
    powered (trace (snd (powerOff silent_env some_client after_on)))"
  using powerOff_silent_status [of silent_env some_client after_on "snd (hd (pidsMap after_on))"]
  by (simp add: status_silent_def silent_env_def after_on_def)

subsection \<open>A death link that cannot be made\<close>

lemma link_env_irrelevant [simp]:
  "do_get_status (E\<lparr>link_to_death := f\<rparr>) = do_get_status E"
  "do_ioctl (E\<lparr>link_to_death := f\<rparr>) = do_ioctl E"
  "isPowerOnAllowed (E\<lparr>link_to_death := f\<rparr>) = isPowerOnAllowed E"
  "ensure_open (E\<lparr>link_to_death := f\<rparr>) = ensure_open E"
  by (simp_all add: fun_eq_iff isPowerOnAllowed_def geteSEBindingStatus_def ensure_open_def
      call_defs Let_def)

lemma link_env_power_up [simp]: "power_up (E\<lparr>link_to_death := f\<rparr>) = power_up E"
  by (rule ext) (simp only: power_up_def link_env_irrelevant cong del: if_weak_cong)

text \<open>A \<open>powerOn\<close> that brings the power up but cannot link to the client's death
  reports \<open>-1\<close> and registers nobody, and leaves the power on and the device open: with an empty
  registry no \<open>powerOff\<close> will be accepted to switch it off.\<close>

lemma powerOn_link_failure:
  assumes "env_willing E" and "e \<noteq> NO_ERROR" and "\<not> bad_uid (calling_uid c)"
    and "E' = E\<lparr>link_to_death := \<lambda>_ _ _. e\<rparr>" and "powerOn E' c (Some b) s = (ret, s')"
  shows "ret = - 1 \<and> pidsMap s' = pidsMap s \<and> powered (trace s') \<and> \<not> is_neg (nq_node s') \<and>
    (pidsMap s = [] \<longrightarrow> powerOff E' c s' = (- 1, s'))"
proof -
  obtain ok s1 where a: "isPowerOnAllowed E s = (ok, s1)" by fastforce
  obtain x s2 where o: "ensure_open E s1 = (x, s2)" by fastforce
  obtain y s3 where u: "power_up E s2 = (y, s3)" by fastforce
  have ok using willing_calls(4) [OF assms(1), of s] a by simp
  with assms a o u allowed_frame [OF a] ensure_open_willing [OF assms(1) o]
    power_up_willing [OF assms(1) u]
  show ?thesis
    by (auto simp: powerOn_def register_client_def do_link_def Let_def powerOff_def pm_find_def)
qed

lemma powerOn_link_failure_witness:
  defines "E \<equiv> good_env\<lparr>link_to_death := \<lambda>_ _ _. - 32\<rparr>"
  shows "powered (trace (snd (powerOn E some_client (Some 7) epm_init)))"
  using powerOn_link_failure [OF good_env_willing, of "- 32" some_client E 7 epm_init
      "fst (powerOn E some_client (Some 7) epm_init)" "snd (powerOn E some_client (Some 7) epm_init)"]
  by (simp add: E_def NO_ERROR_def)

subsection \<open>Death links that outlive their session\<close>

text \<open>What the other calls leave alone: the links in place and the next notifier.\<close>

definition same_links :: "epm \<Rightarrow> epm \<Rightarrow> bool" where
  "same_links s s' \<longleftrightarrow> live_links (trace s') = live_links (trace s) \<and> next_obj s' = next_obj s"

lemma links_allowed: "isPowerOnAllowed E s = (x, s') \<Longrightarrow> same_links s s'"
  by (auto simp: isPowerOnAllowed_def geteSEBindingStatus_def same_links_def Let_def split: if_splits)

lemma links_ensure_open: "ensure_open E s = (x, s') \<Longrightarrow> same_links s s'"
  by (auto simp: ensure_open_def do_open_def same_links_def Let_def split: if_splits)

lemma links_power_up: "power_up E s = (x, s') \<Longrightarrow> same_links s s'"
  by (auto simp: power_up_def call_defs same_links_def Let_def split: if_splits prod.splits)

lemma links_power_down: "power_down E s = (x, s') \<Longrightarrow> same_links s s'"
  by (auto simp: power_down_def call_defs same_links_def Let_def split: if_splits prod.splits)

text \<open>
  One process at work: its entry holds the callback and the notifier \<open>f\<close> of its first
  \<open>powerOn\<close>, and the links in place are \<open>f\<close>, unless it has been taken away, and those of
  the later calls.
\<close>

definition session_links :: "u32 \<Rightarrow> ibinder \<times> notifier \<Rightarrow> nat \<Rightarrow> epm \<Rightarrow> bool" where
  "session_links p f k s \<longleftrightarrow> mPid (snd f) = p \<and>
     (\<forall>d. pidsMap s = [(p, d)] \<longrightarrow> l_serviceCb d = Some (fst f) \<and> l_deathNotifier d = Some (snd f)) \<and>
     length (filter (\<lambda>l. l \<noteq> f) (live_links (trace s))) = k \<and>
     (\<forall>l\<in>set (live_links (trace s)). mPid (snd l) = p \<and> mObj (snd l) < next_obj s) \<and> mObj (snd f) < next_obj s"

lemma session_links_same:
  "session_links p f k s \<Longrightarrow> same_links s s' \<Longrightarrow> pidsMap s' = pidsMap s \<or> pidsMap s' = [] \<Longrightarrow>
    session_links p f k s'"
  by (auto simp: session_links_def same_links_def)

lemma on_links:
  assumes "powerOn E c (Some b) s = (1, s')"
  shows "live_links (trace s') = (b, ClientDiedNotifier (calling_pid c) (next_obj s)) # live_links (trace s)"
proof -
  obtain ok s1 where a: "isPowerOnAllowed E s = (ok, s1)" by fastforce
  obtain x s2 where o: "ensure_open E s1 = (x, s2)" by fastforce
  obtain y s3 where u: "power_up E s2 = (y, s3)" by fastforce
  have ret: "x \<noteq> Inl 1" "y \<noteq> Inl 1"
    using o u by (auto simp: ensure_open_def power_up_def Let_def EBUSY_def split: prod.splits if_splits)
  have "same_links s s3"
    using links_allowed [OF a] links_ensure_open [OF o] links_power_up [OF u]
    by (simp add: same_links_def)
  with assms a o u ret show ?thesis
    by (auto simp: powerOn_def register_client_def do_link_def same_links_def Let_def
        PERMISSION_DENIED_def split: if_splits sum.splits)
qed

lemma on_registry:
  assumes "powerOn E c (Some b) s = (1, s')"
  shows "next_obj s' = next_obj s + 1 \<and>
    pidsMap s' = enrol (calling_pid c) (new_data (calling_pid c) b (next_obj s)) (pidsMap s)"
  using powerOn_registry [OF assms] by auto

lemma first_on_session:
  assumes "powerOn E c (Some b) s = (1, s')" and "pidsMap s = []" and "live_links (trace s) = []"
  shows "session_links (calling_pid c) (b, ClientDiedNotifier (calling_pid c) (next_obj s)) 0 s'"
  using on_links [OF assms(1)] on_registry [OF assms(1)] assms(2,3)
  by (auto simp: session_links_def enrol_def new_data_def pm_find_def)

lemma later_on_session:
  assumes "powerOn E c (Some b) s = (1, s')" and "pidsMap s = [(calling_pid c, d)]"
    and "session_links (calling_pid c) f k s"
  shows "session_links (calling_pid c) f (Suc k) s'"
  using on_links [OF assms(1)] on_registry [OF assms(1)] assms(2,3)
  by (auto simp: session_links_def enrol_def pm_find_def)

lemma off_session:
  assumes "powerOff E c s = (ret, s')" and "\<not> bad_uid (calling_uid c)"
    and "pidsMap s = [(calling_pid c, d)]" and "session_links (calling_pid c) f k s"
  shows "session_links (calling_pid c) f k s' \<and> f \<notin> set (live_links (trace s'))"
proof -
  let ?u = "unlink_client d s"
  have "l_serviceCb d = Some (fst f)" "l_deathNotifier d = Some (snd f)"
    using assms(3,4) by (auto simp: session_links_def)
  then have u: "live_links (trace ?u) = filter (\<lambda>l. l \<noteq> f) (live_links (trace s))"
    "next_obj ?u = next_obj s"
    by (simp_all add: unlink_client_def do_unlink_def)
  have "live_links (trace s') = live_links (trace ?u) \<and> next_obj s' = next_obj s \<and>
      (pidsMap s' = [] \<or> (\<exists>n. pidsMap s' = [(calling_pid c, d\<lparr>client_threadCount := n\<rparr>)]))"
    using assms(1-3) u(2) reg_power_down [of E "?u\<lparr>pidsMap := []\<rparr>" ret s']
      links_power_down [of E "?u\<lparr>pidsMap := []\<rparr>" ret s']
    by (auto simp: powerOff_def Let_def pm_find_def isPidsMapEmpty_def pm_is_empty_def
        same_links_def same_reg_def split: if_splits)
  with u assms(3,4) show ?thesis by (auto simp: session_links_def)
qed

lemma power_ons_session:
  assumes "env_willing E" and "\<not> bad_uid (calling_uid c)"
  shows "holds_only (calling_pid c) (Suc j) s \<Longrightarrow> session_links (calling_pid c) f k s \<Longrightarrow>
    Suc j + length bs < 2 ^ 31 \<Longrightarrow>
    session_links (calling_pid c) f (k + length bs) (snd (power_ons E c bs s)) \<and>
    holds_only (calling_pid c) (Suc j + length bs) (snd (power_ons E c bs s))"
proof (induction bs arbitrary: j k s)
  case Nil
  then show ?case by simp
next
  case (Cons b bs)
  obtain s1 where s1: "powerOn E c (Some b) s = (1, s1)" "holds_only (calling_pid c) (Suc (Suc j)) s1"
    using on_willing [OF assms Cons.prems(1), of b] Cons.prems(3) by auto
  obtain d where "pidsMap s = [(calling_pid c, d)]"
    using Cons.prems(1) by (auto simp: holds_only_def split: if_splits)
  then have "session_links (calling_pid c) f (Suc k) s1"
    using later_on_session [OF s1(1)] Cons.prems(2) by blast
  from Cons.IH [OF s1(2) this] Cons.prems(3) s1(1) show ?case
    by (simp add: split_beta)
qed

lemma power_offs_session:
  assumes "env_willing E" and "\<not> bad_uid (calling_uid c)"
  shows "holds_only (calling_pid c) (Suc j) s \<Longrightarrow> session_links (calling_pid c) f k s \<Longrightarrow>
    Suc j < 2 ^ 31 \<Longrightarrow>
    session_links (calling_pid c) f k (snd (power_offs E c (Suc j) s)) \<and>
    f \<notin> set (live_links (trace (snd (power_offs E c (Suc j) s)))) \<and>
    pidsMap (snd (power_offs E c (Suc j) s)) = []"
proof (induction j arbitrary: s)
  case (0 s)
  then obtain d s1 where "powerOff E c s = (0, s1)" "pidsMap s1 = []" "pidsMap s = [(calling_pid c, d)]"
    using off_willing [OF assms, of 0 s] by (auto simp: holds_only_def)
  with off_session [OF this(1) assms(2) this(3) 0(2)] show ?case by simp
next
  case (Suc j s)
  then obtain d s1 where "powerOff E c s = (1, s1)" "holds_only (calling_pid c) (Suc j) s1"
    "pidsMap s = [(calling_pid c, d)]"
    using off_willing [OF assms, of "Suc j" s] by (auto simp: holds_only_def)
  with off_session [OF this(1) assms(2) this(3) Suc.prems(2)] Suc.IH [of s1] Suc.prems(3)
  show ?case by (simp add: split_beta)
qed

text \<open>The session of a process, and what it leaves.\<close>

lemma session_left:
  assumes "env_willing E" and "\<not> bad_uid (calling_uid c)" and "pidsMap s = []"
    and "live_links (trace s) = []" and "length bs < 2 ^ 31"
    and "s' = snd (power_offs E c (length bs) (snd (power_ons E c bs s)))"
  shows "pidsMap s' = [] \<and> length (live_links (trace s')) = length bs - 1 \<and>
    (\<forall>l\<in>set (live_links (trace s')). mPid (snd l) = calling_pid c \<and> mObj (snd l) < next_obj s')"
proof (cases bs)
  case Nil
  with assms show ?thesis by simp
next
  case (Cons b bs')
  have "holds_only (calling_pid c) 0 s" using assms(3) by (simp add: holds_only_def)
  then obtain s1 where s1: "powerOn E c (Some b) s = (1, s1)" "holds_only (calling_pid c) (Suc 0) s1"
    using on_willing [OF assms(1,2), of 0 s b] by auto
  let ?f = "(b, ClientDiedNotifier (calling_pid c) (next_obj s))"
  let ?s2 = "snd (power_ons E c bs' s1)"
  have s2: "session_links (calling_pid c) ?f (length bs') ?s2"
    "holds_only (calling_pid c) (Suc (length bs')) ?s2"
    using power_ons_session [OF assms(1,2) s1(2) first_on_session [OF s1(1) assms(3,4)], of bs']
      assms(5) Cons by auto
  have eq: "s' = snd (power_offs E c (Suc (length bs')) ?s2)"
    using assms(6) Cons s1(1) by (simp add: split_beta)
  from power_offs_session [OF assms(1,2) s2(2,1)] assms(5) Cons
  have *: "session_links (calling_pid c) ?f (length bs') s'" "?f \<notin> set (live_links (trace s'))"
    "pidsMap s' = []"
    by (simp_all only: eq) simp_all
  moreover have "filter (\<lambda>l. l \<noteq> ?f) (live_links (trace s')) = live_links (trace s')"
    using *(2) by (auto simp: filter_id_conv)
  ultimately show ?thesis using Cons by (auto simp: session_links_def)
qed

text \<open>C35.  A process that powers on \<open>n\<close> times and off \<open>n\<close> times, with nothing failing,
  leaves \<open>n - 1\<close> of its death links in place although it is no longer registered: every
  \<open>powerOn\<close> makes a link, but only the link of the first one is ever taken away.\<close>

theorem session_leaks_links:
  assumes "env_willing E" and "\<not> bad_uid (calling_uid c)" and "pidsMap s = []"
    and "live_links (trace s) = []" and "length bs < 2 ^ 31"
    and "s' = snd (power_offs E c (length bs) (snd (power_ons E c bs s)))"
  shows "pidsMap s' = [] \<and> length (live_links (trace s')) = length bs - 1 \<and>
    (\<forall>(b, n)\<in>set (live_links (trace s')). mPid n = calling_pid c)"
  using session_left [OF assms] by auto

lemma session_leaks_links_witness:
  "length (live_links (trace (snd (power_offs good_env some_client (length [7, 8, 9 :: ibinder])
     (snd (power_ons good_env some_client [7, 8, 9] epm_init)))))) = 2"
  using session_leaks_links [OF good_env_willing uid_some_client(2), of epm_init "[7, 8, 9]"]
  by (simp add: epm_init_def pm_empty_def del: power_ons.simps power_offs.simps)



end
