(* ===== verification/PowerBinder.thy ===== *)
theory PowerBinder
  imports PowerSessions
begin

text \<open>
  The remote interface of the power daemon: the transaction codes of
  \<open>IeSEPowerManager.h\<close>, the server stub \<open>BneSEPowerManager::onTransact\<close>, the client proxy
  \<open>BpeSEPowerManager\<close>, and the callback interface in the other direction.
\<close>

subsection \<open>Codes and names\<close>

definition NOTIFY_CALLBACK :: u32 where "NOTIFY_CALLBACK = FIRST_CALL_TRANSACTION"

definition TRANSACTION_POWERON :: u32 where "TRANSACTION_POWERON = FIRST_CALL_TRANSACTION"
definition TRANSACTION_POWEROFF :: u32 where "TRANSACTION_POWEROFF = TRANSACTION_POWERON + 1"
definition TRANSACTION_GETSTATE :: u32 where "TRANSACTION_GETSTATE = TRANSACTION_POWEROFF + 1"
definition TRANSACTION_KILLALL :: u32 where "TRANSACTION_KILLALL = TRANSACTION_GETSTATE + 1"
definition TRANSACTION_GET_ESE_BINDING_STATUS :: u32 where
  "TRANSACTION_GET_ESE_BINDING_STATUS = TRANSACTION_KILLALL + 1"

lemmas power_codes = TRANSACTION_POWERON_def TRANSACTION_POWEROFF_def TRANSACTION_GETSTATE_def
  TRANSACTION_KILLALL_def TRANSACTION_GET_ESE_BINDING_STATUS_def FIRST_CALL_TRANSACTION_def

definition epm_descriptor :: string where "epm_descriptor = ''IeSEPowerManager''"
definition epm_cb_descriptor :: string where "epm_cb_descriptor = ''IeSEPowerManagercb''"

subsection \<open>Server stub\<close>

text \<open>The reply of every operation: no exception, then the value it returned.\<close>

definition put_result :: "'p parcel_api \<Rightarrow> i32 \<Rightarrow> 'p \<Rightarrow> 'p" where
  "put_result P ret reply = snd (write_int32 P ret (write_no_exception P reply))"

text \<open>
  \<open>BneSEPowerManager::onTransact\<close>, one transaction at a time under its static mutex.
  \<open>CHECK_INTERFACE\<close> returns \<open>PERMISSION_DENIED\<close> for a wrong token.  The case for
  \<open>TRANSACTION_KILLALL\<close> is compiled only with \<open>eSEClient_Debug\<close>, which nothing defines, so the
  code takes the default case, and the status of the default handler is dropped.
\<close>

definition Bne_onTransact :: "'p parcel_api \<Rightarrow> (u32 \<Rightarrow> 'p \<Rightarrow> 'p \<Rightarrow> i32 \<times> 'p) \<Rightarrow> epm_env \<Rightarrow>
    caller \<Rightarrow> ('p, epm) handler" where
  "Bne_onTransact P B E c code data reply s =
     (if code = TRANSACTION_POWERON then
        let (ok, data) = check_interface P epm_descriptor data in
        if \<not> ok then ((PERMISSION_DENIED, reply), s)
        else let (notifier, data) = read_strong P data;
               (ret, s) = powerOn E c notifier s
             in ((NO_ERROR, put_result P ret reply), s)
      else if code = TRANSACTION_POWEROFF then
        let (ok, data) = check_interface P epm_descriptor data in
        if \<not> ok then ((PERMISSION_DENIED, reply), s)
        else let (ret, s) = powerOff E c s in ((NO_ERROR, put_result P ret reply), s)
      else if code = TRANSACTION_GETSTATE then
        let (ok, data) = check_interface P epm_descriptor data in
        if \<not> ok then ((PERMISSION_DENIED, reply), s)
        else let (ret, s) = getState E s in ((NO_ERROR, put_result P ret reply), s)
      else if code = TRANSACTION_GET_ESE_BINDING_STATUS then
        let (ok, data) = check_interface P epm_descriptor data in
        if \<not> ok then ((PERMISSION_DENIED, reply), s)
        else let (ret, s) = geteSEBindingStatus E s in ((NO_ERROR, put_result P ret reply), s)
      else let (retStatus, reply) = B code data reply in ((NO_ERROR, reply), s))"

subsection \<open>Client proxy\<close>

text \<open>What every method of the proxy does with its data parcel: transact, then read the reply.\<close>

definition Bp_call :: "'p parcel_api \<Rightarrow> ('p, 's) remote \<Rightarrow> u32 \<Rightarrow> 'p \<Rightarrow> 's \<Rightarrow> i32 \<times> 's" where
  "Bp_call P T code data s =
     (let ((res, reply), s) = T code data s in
      if res \<noteq> NO_ERROR then (res, s)
      else let (res, reply) = read_exception P reply in
        if is_neg res then (res, s) else (fst (read_int32 P reply), s))"

definition Bp_data :: "'p parcel_api \<Rightarrow> 'p" where
  "Bp_data P = write_token P epm_descriptor (new_parcel P)"

definition Bp_powerOn :: "'p parcel_api \<Rightarrow> ('p, 's) remote \<Rightarrow> ibinder option \<Rightarrow> 's \<Rightarrow> i32 \<times> 's" where
  "Bp_powerOn P T notifier = Bp_call P T TRANSACTION_POWERON (write_strong P notifier (Bp_data P))"

definition Bp_powerOff :: "'p parcel_api \<Rightarrow> ('p, 's) remote \<Rightarrow> 's \<Rightarrow> i32 \<times> 's" where
  "Bp_powerOff P T = Bp_call P T TRANSACTION_POWEROFF (Bp_data P)"

definition Bp_getState :: "'p parcel_api \<Rightarrow> ('p, 's) remote \<Rightarrow> 's \<Rightarrow> i32 \<times> 's" where
  "Bp_getState P T = Bp_call P T TRANSACTION_GETSTATE (Bp_data P)"

definition Bp_killall :: "'p parcel_api \<Rightarrow> ('p, 's) remote \<Rightarrow> 's \<Rightarrow> i32 \<times> 's" where
  "Bp_killall P T = Bp_call P T TRANSACTION_KILLALL (Bp_data P)"

definition Bp_geteSEBindingStatus :: "'p parcel_api \<Rightarrow> ('p, 's) remote \<Rightarrow> 's \<Rightarrow> i32 \<times> 's" where
  "Bp_geteSEBindingStatus P T = Bp_call P T TRANSACTION_GET_ESE_BINDING_STATUS (Bp_data P)"

lemmas proxy_defs = Bp_powerOn_def Bp_powerOff_def Bp_getState_def Bp_killall_def
  Bp_geteSEBindingStatus_def Bp_data_def

text \<open>A handler that answers with a result is read as that result by \<open>Bp_call\<close>.\<close>

lemma Bp_call_result:
  assumes "parcel_fifo P items" and "delivers P items H T"
    and "\<And>data'. items data' = items data \<Longrightarrow>
      H code data' (new_parcel P) s = ((NO_ERROR, put_result P ret (new_parcel P)), s')"
  shows "Bp_call P T code data s = (ret, s')"
proof -
  obtain data' reply' where "items data' = items data"
    and T: "T code data s = ((fst (fst (H code data' (new_parcel P) s)), reply'),
       snd (H code data' (new_parcel P) s))"
    and r: "fst (fst (H code data' (new_parcel P) s)) = NO_ERROR \<Longrightarrow>
        items reply' = items (snd (fst (H code data' (new_parcel P) s)))"
    using deliversE [OF assms(2)] by metis
  from assms(3) [OF this(1)] T r
  have "T code data s = ((NO_ERROR, reply'), s')" "items reply' = [NoException, Int32 ret]"
    by (simp_all add: put_result_def fifo [OF assms(1)])
  then show ?thesis
    by (simp add: Bp_call_def split_beta fifo [OF assms(1)])
qed

lemma Bp_transparent:
  assumes "parcel_fifo P items" and "delivers P items (Bne_onTransact P B E c) T"
  shows "Bp_powerOn P T cb s = powerOn E c cb s \<and> Bp_powerOff P T s = powerOff E c s \<and>
    Bp_getState P T s = getState E s \<and> Bp_geteSEBindingStatus P T s = geteSEBindingStatus E s"
proof (intro conjI)
  note call = Bp_call_result [OF assms(1) assms(2)]
  note stub = proxy_defs Bne_onTransact_def power_codes fifo [OF assms(1)] split_beta
  show "Bp_powerOn P T cb s = powerOn E c cb s"
    unfolding Bp_powerOn_def
    by (subst call [of _ _ s "fst (powerOn E c cb s)" "snd (powerOn E c cb s)"]) (simp_all add: stub)
  show "Bp_powerOff P T s = powerOff E c s"
    unfolding Bp_powerOff_def
    by (subst call [of _ _ s "fst (powerOff E c s)" "snd (powerOff E c s)"]) (simp_all add: stub)
  show "Bp_getState P T s = getState E s"
    unfolding Bp_getState_def
    by (subst call [of _ _ s "fst (getState E s)" "snd (getState E s)"]) (simp_all add: stub)
  show "Bp_geteSEBindingStatus P T s = geteSEBindingStatus E s"
    unfolding Bp_geteSEBindingStatus_def
    by (subst call [of _ _ s "fst (geteSEBindingStatus E s)" "snd (geteSEBindingStatus E s)"])
      (simp_all add: stub)
qed

lemma Bp_killall_ignored:
  assumes "parcel_fifo P items" and "base_refuses items B"
    and "delivers P items (Bne_onTransact P B E c) T"
  shows "Bp_killall P T s = (0, s)"
proof -
  let ?H = "Bne_onTransact P B E c TRANSACTION_KILLALL"
  obtain data' reply' where
    T: "T TRANSACTION_KILLALL (Bp_data P) s = ((fst (fst (?H data' (new_parcel P) s)), reply'),
       snd (?H data' (new_parcel P) s))"
    and r: "fst (fst (?H data' (new_parcel P) s)) = NO_ERROR \<Longrightarrow>
        items reply' = items (snd (fst (?H data' (new_parcel P) s)))"
    using deliversE [OF assms(3)] by metis
  from T r assms(2)
  have "T TRANSACTION_KILLALL (Bp_data P) s = ((NO_ERROR, reply'), s)" "items reply' = []"
    by (simp_all add: Bne_onTransact_def power_codes base_refuses_def split_beta fifo [OF assms(1)])
  then show ?thesis
    by (simp add: Bp_killall_def Bp_call_def split_beta fifo [OF assms(1)])
qed

text \<open>C19.  What a call of the proxy is worth: with the transport connected to the daemon's stub, a
  remote call of \<open>powerOn\<close>, \<open>powerOff\<close>, \<open>getState\<close> or \<open>geteSEBindingStatus\<close> has exactly the result
  and the effect of the direct call, and a remote \<open>killall\<close>, for which the stub has no case,
  returns 0 without reaching the daemon: the stub hands it to the default handler and drops its
  refusal.\<close>

theorem proxy_transparent:
  assumes "parcel_fifo P items" and "delivers P items (Bne_onTransact P B E c) T"
  shows "Bp_powerOn P T cb s = powerOn E c cb s \<and> Bp_powerOff P T s = powerOff E c s \<and>
    Bp_getState P T s = getState E s \<and> Bp_geteSEBindingStatus P T s = geteSEBindingStatus E s \<and>
    (base_refuses items B \<longrightarrow> Bp_killall P T s = (0, s))"
  using Bp_transparent [OF assms] Bp_killall_ignored [OF assms(1) _ assms(2)] by blast

lemma proxy_transparent_witness:
  "Bp_powerOn list_parcel (loopback list_parcel (Bne_onTransact list_parcel base_unknown good_env some_client))
     (Some 7) epm_init = (1, after_on) \<and>
   Bp_killall list_parcel (loopback list_parcel (Bne_onTransact list_parcel base_unknown good_env some_client))
     after_on = (0, after_on)"
  using proxy_transparent [OF list_parcel_fifo loopback_delivers, of base_unknown good_env some_client "Some 7" epm_init]
    proxy_transparent [OF list_parcel_fifo loopback_delivers, of base_unknown good_env some_client _ after_on]
    first_on by (simp add: base_unknown_refuses)

text \<open>A client that does not name the daemon's interface is turned away with
  \<open>PERMISSION_DENIED\<close> by every transaction the stub knows, before the daemon is called.\<close>

lemma stub_checks_interface:
  assumes "parcel_fifo P items" and "items data = Token d # xs" and "d \<noteq> epm_descriptor"
    and "code \<in> {TRANSACTION_POWERON, TRANSACTION_POWEROFF, TRANSACTION_GETSTATE,
      TRANSACTION_GET_ESE_BINDING_STATUS}"
  shows "Bne_onTransact P B E c code data reply s = ((PERMISSION_DENIED, reply), s)"
  using assms(2-4)
  by (auto simp: Bne_onTransact_def power_codes split_beta fifo [OF assms(1)])

lemma stub_checks_interface_witness:
  "Bne_onTransact list_parcel base_unknown good_env some_client TRANSACTION_POWEROFF [Token ''x''] [] after_on =
     ((PERMISSION_DENIED, []), after_on)"
  by (rule stub_checks_interface [OF list_parcel_fifo, of _ "''x''" "[]"]) (simp_all add: epm_descriptor_def)

subsection \<open>The callback interface\<close>

text \<open>
  \<open>eSEPowerManagerCb::notifyCallback\<close> is empty; the client's state \<open>'s\<close> and its callback are
  parameters, so that the stub is shown to deliver the event.  The stub starts with
  \<open>UNKNOWN_ERROR\<close> and never replaces it.
\<close>

definition Bne_cb_onTransact :: "'p parcel_api \<Rightarrow> (u32 \<Rightarrow> 'p \<Rightarrow> 'p \<Rightarrow> i32 \<times> 'p) \<Rightarrow>
    (i32 \<Rightarrow> 's \<Rightarrow> 's) \<Rightarrow> ('p, 's) handler" where
  "Bne_cb_onTransact P B notify code data reply s =
     (if code = NOTIFY_CALLBACK then
        let (ok, data) = check_interface P epm_cb_descriptor data in
        if \<not> ok then ((PERMISSION_DENIED, reply), s)
        else let (event, data) = read_int32 P data
             in ((UNKNOWN_ERROR, write_no_exception P reply), notify event s)
      else (B code data reply, s))"

definition Bp_notifyCallback :: "'p parcel_api \<Rightarrow> ('p, 's) remote \<Rightarrow> i32 \<Rightarrow> 's \<Rightarrow> bool \<times> 's" where
  "Bp_notifyCallback P T event s =
     (let data = snd (write_int32 P event (write_token P epm_cb_descriptor (new_parcel P)));
          ((rv, reply), s) = T NOTIFY_CALLBACK data s
      in if rv \<noteq> NO_ERROR then (False, s)
         else let (err, reply) = read_exception P reply in (\<not> is_neg err, s))"

text \<open>A notification reaches the client's callback once with its event, and yet the
  notifier is told that it failed: the stub answers \<open>UNKNOWN_ERROR\<close> to every notification.\<close>

lemma notification_delivered_reported_failed:
  assumes "parcel_fifo P items" and "delivers P items (Bne_cb_onTransact P B notify) T"
  shows "Bp_notifyCallback P T event s = (False, notify event s)"
proof -
  let ?d = "snd (write_int32 P event (write_token P epm_cb_descriptor (new_parcel P)))"
  let ?H = "Bne_cb_onTransact P B notify NOTIFY_CALLBACK"
  obtain data' reply' where d: "items data' = items ?d"
    and T: "T NOTIFY_CALLBACK ?d s = ((fst (fst (?H data' (new_parcel P) s)), reply'),
       snd (?H data' (new_parcel P) s))"
    using deliversE [OF assms(2)] by metis
  from d have "items data' = [Token epm_cb_descriptor, Int32 event]"
    by (simp add: fifo [OF assms(1)])
  with T have "T NOTIFY_CALLBACK ?d s = ((UNKNOWN_ERROR, reply'), notify event s)"
    by (simp add: Bne_cb_onTransact_def split_beta fifo [OF assms(1)])
  then show ?thesis
    by (simp add: Bp_notifyCallback_def status_defs)
qed

lemma notification_delivered_reported_failed_witness:
  "Bp_notifyCallback list_parcel (loopback list_parcel (Bne_cb_onTransact list_parcel base_unknown (\<lambda>e s. s + e)))
     5 100 = (False, 105)"
  using notification_delivered_reported_failed [OF list_parcel_fifo loopback_delivers, of base_unknown "\<lambda>e s. s + e" 5 100]
  by simp

end
