(* ===== verification/ServiceClient.thy ===== *)
theory ServiceClient
  imports Parcel
begin

text \<open>
  How a client process finds a service and remembers it.  Both wrapper libraries
  (\<open>eSEPowerManager_wrapper.cpp\<close>, \<open>eseManager_wrapper.cpp\<close>) do this with the same code: a
  global proxy, a look-up that waits for the service to be published, and a death observer
  that forgets the proxy.  The service manager is a parameter.
\<close>

subsection \<open>The state of a client process\<close>

datatype sm_event = EvGetService string "ibinder option" | EvSleep nat | EvObserve ibinder

record sm_env =
  get_service :: "sm_event list \<Rightarrow> string \<Rightarrow> ibinder option"

text \<open>The global proxy, what the process did to get it, and the world behind it.\<close>

record 'w client =
  g_proxy :: "ibinder option"
  sm_trace :: "sm_event list"
  world :: 'w

definition client_start :: "'w \<Rightarrow> 'w client" where
  "client_start w = \<lparr>g_proxy = None, sm_trace = [], world = w\<rparr>"

definition do_get_service :: "sm_env \<Rightarrow> string \<Rightarrow> 'w client \<Rightarrow> ibinder option \<times> 'w client" where
  "do_get_service M name s = (let b = get_service M (sm_trace s) name
     in (b, s\<lparr>sm_trace := EvGetService name b # sm_trace s\<rparr>))"

definition do_usleep :: "nat \<Rightarrow> 'w client \<Rightarrow> 'w client" where
  "do_usleep us s = s\<lparr>sm_trace := EvSleep us # sm_trace s\<rparr>"

definition do_observe :: "ibinder \<Rightarrow> 'w client \<Rightarrow> 'w client" where
  "do_observe b s = s\<lparr>sm_trace := EvObserve b # sm_trace s\<rparr>"

subsection \<open>The look-up\<close>

text \<open>\<open>do { getService; if found break; usleep(10ms); count++; } while (count < 5)\<close>.\<close>

function wait_for_service :: "sm_env \<Rightarrow> string \<Rightarrow> nat \<Rightarrow> 'w client \<Rightarrow> ibinder option \<times> 'w client" where
  "wait_for_service M name count s =
     (let (b, s) = do_get_service M name s in
      if b \<noteq> None then (b, s)
      else let s = do_usleep (10 * 1000) s; count = count + 1
        in if count < 5 then wait_for_service M name count s else (None, s))"
  by pat_completeness auto
termination by (relation "measure (\<lambda>(M, name, count, s). 5 - count)") auto

declare wait_for_service.simps [simp del]

text \<open>The look-up of a wrapper: the cached proxy, or a new one with a death observer.\<close>

definition service_client :: "sm_env \<Rightarrow> string \<Rightarrow> 'w client \<Rightarrow> ibinder option \<times> 'w client" where
  "service_client M name s =
     (if g_proxy s = None then
        let (b, s) = wait_for_service M name 0 s;
            s = (case b of None \<Rightarrow> s | Some x \<Rightarrow> do_observe x s);
            s = s\<lparr>g_proxy := b\<rparr>
        in (b, s)
      else (g_proxy s, s))"

text \<open>The prologue of every wrapper function, which makes the global assignment once more.\<close>

definition ensure_proxy :: "sm_env \<Rightarrow> string \<Rightarrow> 'w client \<Rightarrow> ibinder option \<times> 'w client" where
  "ensure_proxy M name s =
     (if g_proxy s = None then
        let (b, s) = service_client M name s; s = s\<lparr>g_proxy := b\<rparr> in (b, s)
      else (g_proxy s, s))"

definition forget_proxy :: "'w client \<Rightarrow> 'w client" where
  "forget_proxy s = s\<lparr>g_proxy := None\<rparr>"

subsection \<open>Attempts and waiting time\<close>

fun attempts :: "sm_event list \<Rightarrow> nat" where
  "attempts [] = 0"
| "attempts (EvGetService _ _ # tr) = Suc (attempts tr)"
| "attempts (_ # tr) = attempts tr"

fun waited :: "sm_event list \<Rightarrow> nat" where
  "waited [] = 0"
| "waited (EvSleep us # tr) = us + waited tr"
| "waited (_ # tr) = waited tr"

text \<open>
  From attempt \<open>count\<close> on: a service found after \<open>k\<close> failures (there is an attempt for it),
  or all remaining attempts failed.
\<close>

lemma wait_for_service_spec:
  assumes "count < 5" and "wait_for_service M name count s = (b, s')"
  shows "(\<exists>k. count + k < 5 \<and> b \<noteq> None \<and> attempts (sm_trace s') = attempts (sm_trace s) + Suc k \<and>
        waited (sm_trace s') = waited (sm_trace s) + 10000 * k \<and> hd (sm_trace s') = EvGetService name b) \<or>
      (b = None \<and> attempts (sm_trace s') = attempts (sm_trace s) + (5 - count) \<and>
        waited (sm_trace s') = waited (sm_trace s) + 10000 * (5 - count))"
  using assms
proof (induction M name count s arbitrary: b s' rule: wait_for_service.induct)
  case (1 M name count s)
  define g where "g = get_service M (sm_trace s) name"
  let ?s1 = "s\<lparr>sm_trace := EvGetService name g # sm_trace s\<rparr>"
  have get: "do_get_service M name s = (g, ?s1)"
    by (simp add: do_get_service_def g_def Let_def)
  show ?case
  proof (cases "g = None \<and> count + 1 < 5")
    case False
    with "1.prems" get show ?thesis
      by (subst (asm) wait_for_service.simps) (auto simp: do_usleep_def split: if_splits)
  next
    case True
    then have "wait_for_service M name (count + 1) (do_usleep (10 * 1000) ?s1) = (b, s')"
      using "1.prems"(2) get by (subst (asm) wait_for_service.simps) simp
    from "1.IH" [OF get [symmetric] refl _ refl refl _ _ this] True
    consider (found) k where "count + 1 + k < 5" "b \<noteq> None"
        "attempts (sm_trace s') = attempts (sm_trace (do_usleep (10 * 1000) ?s1)) + Suc k"
        "waited (sm_trace s') = waited (sm_trace (do_usleep (10 * 1000) ?s1)) + 10000 * k"
        "hd (sm_trace s') = EvGetService name b"
      | (none) "b = None"
        "attempts (sm_trace s') = attempts (sm_trace (do_usleep (10 * 1000) ?s1)) + (5 - (count + 1))"
        "waited (sm_trace s') = waited (sm_trace (do_usleep (10 * 1000) ?s1)) + 10000 * (5 - (count + 1))"
      by auto
    then show ?thesis
    proof cases
      case found
      then show ?thesis
        by (intro disjI1 exI [of _ "Suc k"]) (simp add: do_usleep_def)
    next
      case none
      then show ?thesis using True by (auto simp: do_usleep_def)
    qed
  qed
qed

lemma wait_frame:
  assumes "wait_for_service M name count s = (b, s')"
  shows "g_proxy s' = g_proxy s \<and> world s' = world s"
  using assms
proof (induction M name count s arbitrary: b s' rule: wait_for_service.induct)
  case (1 M name count s)
  obtain g s1 where get: "do_get_service M name s = (g, s1)" by fastforce
  then have s1: "g_proxy s1 = g_proxy s" "world s1 = world s"
    by (auto simp: do_get_service_def Let_def)
  from "1.prems" have "(if g \<noteq> None then (g, s1) else if count + 1 < 5
      then wait_for_service M name (count + 1) (do_usleep (10 * 1000) s1)
      else (None, do_usleep (10 * 1000) s1)) = (b, s')"
    by (subst (asm) wait_for_service.simps) (simp add: get Let_def cong: if_cong)
  with s1 "1.IH" [OF get [symmetric] refl _ refl refl, of b s'] show ?case
    by (auto simp: do_usleep_def split: if_splits)
qed

lemma wait_never:
  assumes "\<And>tr. get_service M tr name = None"
  shows "fst (wait_for_service M name count s) = None"
proof -
  have "get_service M = (\<lambda>tr n. if n = name then None else get_service M tr n) \<Longrightarrow> ?thesis"
  proof (induction M name count s rule: wait_for_service.induct)
    case (1 M name count s)
    have none: "fst (do_get_service M name s) = None"
      by (subst do_get_service_def, subst "1.prems") (simp add: Let_def)
    then obtain s1 where "do_get_service M name s = (None, s1)" by (metis prod.collapse)
    with "1.IH" [OF this [symmetric] refl _ refl refl _ "1.prems"] show ?case
      by (subst wait_for_service.simps) (simp add: Let_def)
  qed
  then show ?thesis using assms by (auto simp: fun_eq_iff)
qed

lemma ensure_proxy_hit: "g_proxy s = Some b \<Longrightarrow> ensure_proxy M name s = (Some b, s)"
  by (simp add: ensure_proxy_def)

lemma ensure_proxy_miss:
  assumes "g_proxy s = None" and "ensure_proxy M name s = (b, s')"
  shows "g_proxy s' = b \<and> world s' = world s \<and>
    ((\<exists>k<5. b \<noteq> None \<and> attempts (sm_trace s') = attempts (sm_trace s) + Suc k \<and>
        waited (sm_trace s') = waited (sm_trace s) + 10000 * k) \<or>
     (b = None \<and> attempts (sm_trace s') = attempts (sm_trace s) + 5 \<and>
        waited (sm_trace s') = waited (sm_trace s) + 50000))"
proof -
  obtain x s1 where w: "wait_for_service M name 0 s = (x, s1)" by fastforce
  with assms have "b = x" "s' = (case x of None \<Rightarrow> s1 | Some y \<Rightarrow> do_observe y s1)\<lparr>g_proxy := x\<rparr>"
    by (auto simp: ensure_proxy_def service_client_def Let_def split: option.splits)
  with wait_for_service_spec [OF _ w] wait_frame [OF w] show ?thesis
    by (auto simp: do_observe_def split: option.splits)
qed

subsection \<open>Calls through the proxy\<close>

text \<open>
  The shape of the functions of both wrappers: the prologue, a fixed value when there is no
  service, and otherwise a method of the proxy.
\<close>

definition via_proxy :: "sm_env \<Rightarrow> string \<Rightarrow> 'r \<Rightarrow> (ibinder \<Rightarrow> 'w \<Rightarrow> 'r \<times> 'w) \<Rightarrow> 'w client \<Rightarrow> 'r \<times> 'w client" where
  "via_proxy M name failed meth s =
     (let (proxy, s) = ensure_proxy M name s in
      case proxy of None \<Rightarrow> (failed, s)
      | Some b \<Rightarrow> (let (status, w) = meth b (world s) in (status, s\<lparr>world := w\<rparr>)))"

lemma via_proxy_found:
  assumes "ensure_proxy M name s = (Some b, s1)"
  shows "fst (via_proxy M name failed meth s) = fst (meth b (world s)) \<and>
    world (snd (via_proxy M name failed meth s)) = snd (meth b (world s)) \<and>
    g_proxy (snd (via_proxy M name failed meth s)) = Some b"
proof -
  have "world s1 = world s" "g_proxy s1 = Some b"
    using assms ensure_proxy_miss [of s M name "Some b" s1] ensure_proxy_hit [of s]
    by (cases "g_proxy s"; auto)+
  with assms show ?thesis by (simp add: via_proxy_def split_beta)
qed

lemma via_proxy_lost:
  assumes "ensure_proxy M name s = (None, s1)"
  shows "via_proxy M name failed meth s = (failed, s1) \<and> world s1 = world s \<and> g_proxy s1 = None"
proof -
  have "g_proxy s = None" using assms by (auto simp: ensure_proxy_def split: if_splits prod.splits)
  with assms ensure_proxy_miss [OF this assms] show ?thesis by (simp add: via_proxy_def)
qed

subsection \<open>The interface of a look-up\<close>

text \<open>
  What a client of a remembered proxy relies on: the look-up remembers what it finds, costs
  nothing while it remembers, and makes at most five attempts; a death makes it forget.
\<close>

datatype life = Call | ServiceDied

fun client_life :: "('c \<Rightarrow> ibinder option \<times> 'c) \<Rightarrow> ('c \<Rightarrow> 'c) \<Rightarrow> life list \<Rightarrow> 'c \<Rightarrow> bool \<times> 'c" where
  "client_life ensure forget [] s = (True, s)"
| "client_life ensure forget (Call # xs) s =
     (let (b, s) = ensure s; (ok, s) = client_life ensure forget xs s in (b \<noteq> None \<and> ok, s))"
| "client_life ensure forget (ServiceDied # xs) s = client_life ensure forget xs (forget s)"

locale service_lookup =
  fixes ensure :: "'c \<Rightarrow> ibinder option \<times> 'c" and cached :: "'c \<Rightarrow> ibinder option"
    and tries :: "'c \<Rightarrow> nat" and forget :: "'c \<Rightarrow> 'c"
  assumes caches: "ensure s = (b, s') \<Longrightarrow> cached s' = b"
    and hit: "cached s = Some x \<Longrightarrow> ensure s = (Some x, s)"
    and five: "ensure s = (b, s') \<Longrightarrow> tries s' \<le> tries s + 5"
    and forgets: "cached (forget s) = None"
    and forget_free: "tries (forget s) = tries s"
begin

lemma ensure_again: "ensure s = (Some x, s') \<Longrightarrow> ensure s' = (Some x, s')"
  using caches hit by blast

text \<open>While the service is found, only the first call and the first one after each death look it up.\<close>

lemma life_tries:
  "client_life ensure forget xs s = (True, s') \<Longrightarrow>
    tries s' \<le> tries s + 5 * count_list xs ServiceDied + (if cached s = None then 5 else 0)"
proof (induction xs arbitrary: s)
  case Nil
  then show ?case by simp
next
  case (Cons x xs)
  show ?case
  proof (cases x)
    case Call
    obtain b s1 where e: "ensure s = (b, s1)" by fastforce
    with Cons.prems Call have "b \<noteq> None" and l: "client_life ensure forget xs s1 = (True, s')"
      by (auto split: prod.splits)
    with e caches have "cached s1 \<noteq> None" by blast
    moreover have "tries s1 \<le> tries s + (if cached s = None then 5 else 0)"
      using e five hit by (cases "cached s") fastforce+
    ultimately show ?thesis using Cons.IH [OF l] Call by (auto split: if_splits)
  next
    case ServiceDied
    with Cons.prems have "client_life ensure forget xs (forget s) = (True, s')" by simp
    from Cons.IH [OF this] ServiceDied show ?thesis by (simp add: forgets forget_free)
  qed
qed

end

interpretation lookup: service_lookup "ensure_proxy M name" g_proxy "\<lambda>s. attempts (sm_trace s)" forget_proxy
  for M name
proof (unfold_locales, goal_cases)
  case (1 s b s')
  then show ?case using ensure_proxy_hit [of s] ensure_proxy_miss [of s M name b s'] by (cases "g_proxy s") auto
next
  case (3 s b s')
  then show ?case using ensure_proxy_hit [of s] ensure_proxy_miss [of s M name b s'] by (cases "g_proxy s") auto
qed (simp_all add: ensure_proxy_hit forget_proxy_def)

text \<open>The look-up of a service that is not remembered returns after at most five
  attempts and 50 milliseconds of waiting, and it gives up only after five failures.\<close>

lemma lookup_bounded:
  assumes "g_proxy s = None" and "ensure_proxy M name s = (b, s')"
  shows "attempts (sm_trace s') \<le> attempts (sm_trace s) + 5 \<and>
    waited (sm_trace s') \<le> waited (sm_trace s) + 50000 \<and> g_proxy s' = b \<and> world s' = world s \<and>
    (b = None \<longrightarrow> attempts (sm_trace s') = attempts (sm_trace s) + 5)"
  using ensure_proxy_miss [OF assms] by auto

text \<open>A service manager that knows the service after the given number of failed look-ups.\<close>

definition published_after :: "nat \<Rightarrow> ibinder \<Rightarrow> sm_env" where
  "published_after k b = \<lparr>get_service = (\<lambda>tr _. if attempts tr < k then None else Some b)\<rparr>"

lemma published_now: "attempts (sm_trace s) \<ge> k \<Longrightarrow> g_proxy s = None \<Longrightarrow>
    ensure_proxy (published_after k b) name s =
      (Some b, s\<lparr>g_proxy := Some b, sm_trace := [EvObserve b, EvGetService name (Some b)] @ sm_trace s\<rparr>)"
  by (simp add: ensure_proxy_def service_client_def do_get_service_def published_after_def
      do_observe_def Let_def wait_for_service.simps)

lemma lookup_bounded_witness:
  "attempts (sm_trace (snd (ensure_proxy (published_after 9 7) ''x'' (client_start ())))) \<le> 5"
  using lookup_bounded [of "client_start ()" "published_after 9 7" "''x''"
      "fst (ensure_proxy (published_after 9 7) ''x'' (client_start ()))"
      "snd (ensure_proxy (published_after 9 7) ''x'' (client_start ()))"]
  by (simp add: client_start_def)

text \<open>However many calls a client makes, it asks the service manager at most five
  times for its first call and five times for each death of the service, as long as the service
  is found; the proxy is used for the rest.\<close>

lemma lookup_cached:
  assumes "client_life (ensure_proxy M name) forget_proxy xs (client_start w) = (True, s')"
  shows "attempts (sm_trace s') \<le> 5 * count_list xs ServiceDied + 5"
  using lookup.life_tries [OF assms] by (simp add: client_start_def)

lemma lookup_cached_witness:
  "attempts (sm_trace (snd (client_life (ensure_proxy (published_after 0 7) ''x'') forget_proxy
     [Call, Call, ServiceDied, Call] (client_start ())))) \<le> 10"
proof -
  have "client_life (ensure_proxy (published_after 0 7) ''x'') forget_proxy
      [Call, Call, ServiceDied, Call] (client_start ()) = (True, \<lparr>g_proxy = Some 7,
        sm_trace = [EvObserve 7, EvGetService ''x'' (Some 7), EvObserve 7, EvGetService ''x'' (Some 7)],
        world = ()\<rparr>)"
    by (simp add: client_start_def published_now ensure_proxy_hit forget_proxy_def)
  from lookup_cached [OF this] show ?thesis
    by (simp add: client_start_def published_now ensure_proxy_hit forget_proxy_def)
qed

end
