(* ===== verification/PowerClient.thy ===== *)
theory PowerClient
  imports PowerBinder ServiceClient
begin

text \<open>
  The clients of the power daemon: the C wrapper \<open>eSEPowerManager_wrapper.cpp\<close> that other
  native code links to, and the command line tool \<open>eSEPowerManagerClient.cpp\<close>.  A remote
  object is reached through \<open>R\<close>, which gives the transport of each remote object.
\<close>

subsection \<open>The wrapper library\<close>

definition esePMerviceName :: string where "esePMerviceName = ''eSEPowerManagerService''"

definition getEsePMServiceClient :: "sm_env \<Rightarrow> 'w client \<Rightarrow> ibinder option \<times> 'w client" where
  "getEsePMServiceClient M = service_client M esePMerviceName"

definition wrap_powerOn :: "sm_env \<Rightarrow> 'p parcel_api \<Rightarrow> (ibinder \<Rightarrow> ('p, 'w) remote) \<Rightarrow> ibinder \<Rightarrow>
    'w client \<Rightarrow> i32 \<times> 'w client" where
  "wrap_powerOn M P R cb = via_proxy M esePMerviceName (- 1) (\<lambda>b. Bp_powerOn P (R b) (Some cb))"

definition wrap_powerOff :: "sm_env \<Rightarrow> 'p parcel_api \<Rightarrow> (ibinder \<Rightarrow> ('p, 'w) remote) \<Rightarrow>
    'w client \<Rightarrow> i32 \<times> 'w client" where
  "wrap_powerOff M P R = via_proxy M esePMerviceName (- 1) (\<lambda>b. Bp_powerOff P (R b))"

definition wrap_getState :: "sm_env \<Rightarrow> 'p parcel_api \<Rightarrow> (ibinder \<Rightarrow> ('p, 'w) remote) \<Rightarrow>
    'w client \<Rightarrow> i32 \<times> 'w client" where
  "wrap_getState M P R = via_proxy M esePMerviceName (- 1) (\<lambda>b. Bp_getState P (R b))"

definition wrap_killall :: "sm_env \<Rightarrow> 'p parcel_api \<Rightarrow> (ibinder \<Rightarrow> ('p, 'w) remote) \<Rightarrow>
    'w client \<Rightarrow> i32 \<times> 'w client" where
  "wrap_killall M P R = via_proxy M esePMerviceName (- 1) (\<lambda>b. Bp_killall P (R b))"

definition wrap_geteSEBindingStatus :: "sm_env \<Rightarrow> 'p parcel_api \<Rightarrow> (ibinder \<Rightarrow> ('p, 'w) remote) \<Rightarrow>
    'w client \<Rightarrow> i32 \<times> 'w client" where
  "wrap_geteSEBindingStatus M P R = via_proxy M esePMerviceName (- 1) (\<lambda>b. Bp_geteSEBindingStatus P (R b))"

lemmas wrap_defs = wrap_powerOn_def wrap_powerOff_def wrap_getState_def wrap_killall_def
  wrap_geteSEBindingStatus_def

text \<open>\<open>esePowerManagerDeathObserver::binderDied\<close>.\<close>

definition esepm_died :: "'w client \<Rightarrow> 'w client" where "esepm_died s = forget_proxy s"

text \<open>C20.  What a call of the wrapper is worth: when the daemon is found and its transport is
  connected to the daemon's stub, four of the five wrapper functions return what the daemon's
  operation returns to this caller and leave the daemon in the state it leaves it in; the fifth,
  \<open>killall\<close>, returns 0 and leaves the daemon as it was, since the stub has no case for it.\<close>

theorem wrapper_calls_daemon:
  assumes "parcel_fifo P items" and "\<And>b. delivers P items (Bne_onTransact P B E c) (R b)"
    and "ensure_proxy M esePMerviceName s = (Some b, s1)"
  shows "(let (r, s') = wrap_powerOn M P R cb s in (r, world s') = powerOn E c (Some cb) (world s)) \<and>
    (let (r, s') = wrap_powerOff M P R s in (r, world s') = powerOff E c (world s)) \<and>
    (let (r, s') = wrap_getState M P R s in (r, world s') = getState E (world s)) \<and>
    (let (r, s') = wrap_geteSEBindingStatus M P R s in (r, world s') = geteSEBindingStatus E (world s)) \<and>
    (base_refuses items B \<longrightarrow> (let (r, s') = wrap_killall M P R s in (r, world s') = (0, world s)))"
proof -
  have eq: "Bp_powerOn P (R b) (Some cb) w = powerOn E c (Some cb) w"
    "Bp_powerOff P (R b) w = powerOff E c w" "Bp_getState P (R b) w = getState E w"
    "Bp_geteSEBindingStatus P (R b) w = geteSEBindingStatus E w"
    "base_refuses items B \<Longrightarrow> Bp_killall P (R b) w = (0, w)" for w
    using Bp_transparent [OF assms(1,2)] Bp_killall_ignored [OF assms(1) _ assms(2)] by blast+
  show ?thesis
    by (simp add: wrap_defs eq split_beta via_proxy_found [OF assms(3)])
qed

text \<open>When the daemon is not published, every wrapper function gives up after five
  attempts with \<open>-1\<close>, without touching the world; the next call tries again.\<close>

lemma wrapper_gives_up:
  fixes s :: "'w client"
  assumes "g_proxy s = None" and "\<And>tr. get_service M tr esePMerviceName = None"
    and "op \<in> {wrap_powerOn M P R cb, wrap_powerOff M P R, wrap_getState M P R, wrap_killall M P R,
      wrap_geteSEBindingStatus M P R}"
  shows "fst (op s) = - 1 \<and> world (snd (op s)) = world s \<and> g_proxy (snd (op s)) = None \<and>
    attempts (sm_trace (snd (op s))) = attempts (sm_trace s) + 5"
proof -
  obtain b s1 where e: "ensure_proxy M esePMerviceName s = (b, s1)" by fastforce
  obtain x s2 where w: "wait_for_service M esePMerviceName 0 s = (x, s2)" by fastforce
  with wait_never [OF assms(2), of 0 s] have "x = None" by simp
  with e w assms(1) have "b = None"
    by (auto simp: ensure_proxy_def service_client_def)
  with e have lost: "ensure_proxy M esePMerviceName s = (None, s1)" by simp
  have "via_proxy M esePMerviceName (- 1) meth s = (- 1, s1)"
    for meth :: "ibinder \<Rightarrow> 'w \<Rightarrow> i32 \<times> 'w"
    by (simp add: via_proxy_lost [OF lost])
  moreover have "world s1 = world s" "g_proxy s1 = None"
    by (simp_all add: via_proxy_lost [OF lost])
  moreover have "attempts (sm_trace s1) = attempts (sm_trace s) + 5"
    using ensure_proxy_miss [OF assms(1) e] \<open>b = None\<close> by simp
  ultimately show ?thesis using assms(3) by (auto simp: wrap_defs)
qed

lemma wrapper_calls_daemon_witness:
  "world (snd (wrap_powerOn (published_after 0 9) list_parcel
     (\<lambda>_. loopback list_parcel (Bne_onTransact list_parcel base_unknown good_env some_client)) 7
     (client_start epm_init))) = after_on \<and>
   fst (wrap_killall (published_after 0 9) list_parcel
     (\<lambda>_. loopback list_parcel (Bne_onTransact list_parcel base_unknown good_env some_client))
     (client_start epm_init)) = 0"
proof -
  have "ensure_proxy (published_after 0 9) esePMerviceName (client_start epm_init) =
      (Some 9, (client_start epm_init)\<lparr>g_proxy := Some 9, sm_trace :=
        [EvObserve 9, EvGetService esePMerviceName (Some 9)]\<rparr>)"
    by (simp add: published_now client_start_def)
  from wrapper_calls_daemon [OF list_parcel_fifo loopback_delivers this, of base_unknown good_env some_client 7]
  show ?thesis by (simp add: client_start_def first_on split_beta base_unknown_refuses)
qed

lemma wrapper_gives_up_witness:
  "fst (wrap_powerOff \<lparr>get_service = \<lambda>_ _. None\<rparr> list_parcel
     (\<lambda>_. loopback list_parcel (Bne_onTransact list_parcel base_unknown good_env some_client))
     (client_start after_on)) = - 1"
  using wrapper_gives_up [of "client_start after_on" "\<lparr>get_service = \<lambda>_ _. None\<rparr>" "wrap_powerOff \<lparr>get_service = \<lambda>_ _. None\<rparr> list_parcel
     (\<lambda>_. loopback list_parcel (Bne_onTransact list_parcel base_unknown good_env some_client))" list_parcel
     "\<lambda>_. loopback list_parcel (Bne_onTransact list_parcel base_unknown good_env some_client)"]
  by (simp add: client_start_def)

subsection \<open>The command line tool\<close>

text \<open>
  \<open>getServ\<close> makes one attempt; \<open>present\<close> says whether there is a service manager.  \<open>main\<close>
  calls the proxy without testing it.  The program's arguments come without its name; the
  result is the exit code with the values it logs (the wait for a key after \<open>poweron\<close> has no
  effect on them).
\<close>

definition getServ :: "sm_env \<Rightarrow> bool \<Rightarrow> string \<Rightarrow> 'w client \<Rightarrow> ibinder option \<times> 'w client" where
  "getServ M present name s = (if \<not> present then (None, s) else do_get_service M name s)"

fun perform :: "(string \<times> ('w \<Rightarrow> i32 \<times> 'w)) list \<Rightarrow> 'w \<Rightarrow> (string \<times> i32) list \<times> 'w" where
  "perform [] w = ([], w)"
| "perform ((name, meth) # ms) w = (let (r, w) = meth w; (rs, w) = perform ms w in ((name, r) # rs, w))"

definition tool_calls :: "'p parcel_api \<Rightarrow> ('p, 'w) remote \<Rightarrow> ibinder \<Rightarrow> string list \<Rightarrow>
    (string \<times> ('w \<Rightarrow> i32 \<times> 'w)) list" where
  "tool_calls P T cb args =
     (let on = (''powerOn'', Bp_powerOn P T (Some cb)); off = (''powerOff'', Bp_powerOff P T) in
      case args of [] \<Rightarrow> [on, off]
      | a # _ \<Rightarrow>
          if a = ''poweron'' then [on]
          else if a = ''poweroff'' then [off]
          else if a = ''killall'' then [(''killall'', Bp_killall P T)]
          else if a = ''getstate'' then [(''getState'', Bp_getState P T)]
          else [on, off])"

definition epm_tool_main :: "sm_env \<Rightarrow> bool \<Rightarrow> 'p parcel_api \<Rightarrow> (ibinder \<Rightarrow> ('p, 'w) remote) \<Rightarrow> ibinder \<Rightarrow>
    string list \<Rightarrow> 'w client \<Rightarrow> (i32 \<times> (string \<times> i32) list) outcome \<times> 'w client" where
  "epm_tool_main M present P R cb args s =
     (let (proxy, s) = getServ M present esePMerviceName s in
      case proxy of None \<Rightarrow> (Inl NullDeref, s)
      | Some b \<Rightarrow> (let (log, w) = perform (tool_calls P (R b) cb args) (world s)
          in (Inr (0, log), s\<lparr>world := w\<rparr>)))"

text \<open>The command line tool: without the service it dereferences a null proxy, whatever
  its arguments; with it, \<open>poweron\<close> performs the daemon's \<open>powerOn\<close> and logs its value, no argument
  at all performs \<open>powerOn\<close> then \<open>powerOff\<close>, and \<open>killall\<close> logs a success that never happened.\<close>

lemma tool_behaviour:
  assumes "parcel_fifo P items" and "base_refuses items B"
    and "\<And>b. delivers P items (Bne_onTransact P B E c) (R b)"
  shows "case getServ M present esePMerviceName s of
      (None, s1) \<Rightarrow> epm_tool_main M present P R cb args s = (Inl NullDeref, s1)
    | (Some b, s1) \<Rightarrow>
        epm_tool_main M present P R cb [''poweron''] s =
          (let (r, w) = powerOn E c (Some cb) (world s) in (Inr (0, [(''powerOn'', r)]), s1\<lparr>world := w\<rparr>)) \<and>
        epm_tool_main M present P R cb [] s =
          (let (r, w) = powerOn E c (Some cb) (world s); (r', w) = powerOff E c w
           in (Inr (0, [(''powerOn'', r), (''powerOff'', r')]), s1\<lparr>world := w\<rparr>)) \<and>
        epm_tool_main M present P R cb [''killall''] s = (Inr (0, [(''killall'', 0)]), s1)"
proof -
  have eq: "Bp_powerOn P (R b) (Some cb) w = powerOn E c (Some cb) w"
    "Bp_powerOff P (R b) w = powerOff E c w" "Bp_killall P (R b) w = (0, w)" for b w
    using Bp_transparent [OF assms(1,3)] Bp_killall_ignored [OF assms] by blast+
  obtain p s1 where g: "getServ M present esePMerviceName s = (p, s1)" by fastforce
  then have "world s1 = world s" by (auto simp: getServ_def do_get_service_def Let_def split: if_splits)
  with g show ?thesis
    by (cases p) (simp_all add: epm_tool_main_def tool_calls_def eq split_beta Let_def)
qed

lemma tool_behaviour_witness:
  "epm_tool_main (published_after 0 9) False list_parcel
     (\<lambda>_. loopback list_parcel (Bne_onTransact list_parcel base_unknown good_env some_client)) 7 [''getstate'']
     (client_start epm_init) = (Inl NullDeref, client_start epm_init) \<and>
   fst (epm_tool_main (published_after 0 9) True list_parcel
     (\<lambda>_. loopback list_parcel (Bne_onTransact list_parcel base_unknown good_env some_client)) 7 [''killall'']
     (client_start after_on)) = Inr (0, [(''killall'', 0)])"
  using tool_behaviour [OF list_parcel_fifo base_unknown_refuses loopback_delivers, where E = good_env
      and c = some_client and M = "published_after 0 9" and present = False and s = "client_start epm_init"
      and cb = 7 and args = "[''getstate'']"]
    tool_behaviour [OF list_parcel_fifo base_unknown_refuses loopback_delivers, where E = good_env
      and c = some_client and M = "published_after 0 9" and present = True and s = "client_start after_on"
      and cb = 7 and args = "[]"]
  by (simp add: getServ_def do_get_service_def published_after_def client_start_def Let_def)

end
