(* ===== verification/WrapperRace.thy ===== *)
theory WrapperRace
  imports PowerClient
begin

text \<open>
  The functions of the wrapper libraries in small steps: every access to the global proxy is a
  step of its own, so that calls of several threads and the death observer, which runs on a thread
  of the IPC library, can come between them.  Nothing in the libraries locks the proxy.
\<close>

subsection \<open>A call in small steps\<close>

text \<open>
  The points of a call: the test of the function, then in the look-up its test, an attempt, the
  waiting behind it, the observer, the assignment, the second test and the reading of the result;
  then the assignment and the test of the function, and the use of the proxy.
\<close>

datatype 'r point =
    AtCheck | AtSecond | AtLookup nat | AtSleep nat | AtObserve ibinder | AtAssign "ibinder option"
  | AtRecheck | AtRead | AtStore "ibinder option" | AtFinal | AtUse | Returned 'r | Crashed

fun wrapper_step :: "sm_env \<Rightarrow> string \<Rightarrow> 'r \<Rightarrow> (ibinder \<Rightarrow> 'w \<Rightarrow> 'r \<times> 'w) \<Rightarrow> 'r point \<Rightarrow> 'w client \<Rightarrow>
    'r point \<times> 'w client" where
  "wrapper_step M name failed meth AtCheck s = (if g_proxy s = None then AtSecond else AtUse, s)"
| "wrapper_step M name failed meth AtSecond s = (if g_proxy s = None then AtLookup 0 else AtRead, s)"
| "wrapper_step M name failed meth (AtLookup count) s =
     (let (b, s) = do_get_service M name s
      in (case b of None \<Rightarrow> AtSleep count | Some x \<Rightarrow> AtObserve x, s))"
| "wrapper_step M name failed meth (AtSleep count) s =
     (if count + 1 < 5 then AtLookup (count + 1) else AtAssign None, do_usleep (10 * 1000) s)"
| "wrapper_step M name failed meth (AtObserve b) s = (AtAssign (Some b), do_observe b s)"
| "wrapper_step M name failed meth (AtAssign b) s = (AtRecheck, s\<lparr>g_proxy := b\<rparr>)"
| "wrapper_step M name failed meth AtRecheck s = (if g_proxy s = None then AtStore None else AtRead, s)"
| "wrapper_step M name failed meth AtRead s = (AtStore (g_proxy s), s)"
| "wrapper_step M name failed meth (AtStore b) s = (AtFinal, s\<lparr>g_proxy := b\<rparr>)"
| "wrapper_step M name failed meth AtFinal s = (if g_proxy s = None then Returned failed else AtUse, s)"
| "wrapper_step M name failed meth AtUse s =
     (case g_proxy s of None \<Rightarrow> (Crashed, s)
      | Some b \<Rightarrow> (let (status, w) = meth b (world s) in (Returned status, s\<lparr>world := w\<rparr>)))"
| "wrapper_step M name failed meth p s = (p, s)"

fun wrapper_run :: "sm_env \<Rightarrow> string \<Rightarrow> 'r \<Rightarrow> (ibinder \<Rightarrow> 'w \<Rightarrow> 'r \<times> 'w) \<Rightarrow> nat \<Rightarrow> 'r point \<times> 'w client \<Rightarrow>
    'r point \<times> 'w client" where
  "wrapper_run M name failed meth 0 c = c"
| "wrapper_run M name failed meth (Suc n) c =
     wrapper_run M name failed meth n (wrapper_step M name failed meth (fst c) (snd c))"

lemma run_add: "wrapper_run M name failed meth (m + n) c = wrapper_run M name failed meth n (wrapper_run M name failed meth m c)"
  by (induction m arbitrary: c) simp_all

text \<open>The attempts of the look-up, up to the assignment, within two steps each and one more.\<close>

lemma lookup_run:
  assumes "count < 5" and "wait_for_service M name count s = (b, s')"
  shows "\<exists>n\<le>2 * (5 - count) + 1. wrapper_run M name failed meth n (AtLookup count, s) =
    (AtAssign b, case b of None \<Rightarrow> s' | Some x \<Rightarrow> do_observe x s')"
  using assms
proof (induction M name count s arbitrary: b s' rule: wait_for_service.induct)
  case (1 M name count s)
  obtain g s1 where get: "do_get_service M name s = (g, s1)" by fastforce
  have w: "(if g \<noteq> None then (g, s1) else if count + 1 < 5
      then wait_for_service M name (count + 1) (do_usleep (10 * 1000) s1)
      else (None, do_usleep (10 * 1000) s1)) = (b, s')"
    using "1.prems"(2) by (subst (asm) wait_for_service.simps) (simp add: get Let_def cong: if_cong)
  show ?case
  proof (cases g)
    case (Some x)
    then have "wrapper_run M name failed meth (Suc (Suc 0)) (AtLookup count, s) =
        (AtAssign b, case b of None \<Rightarrow> s' | Some x \<Rightarrow> do_observe x s')"
      using w by (auto simp: get)
    then show ?thesis using "1.prems"(1) by (intro exI [of _ "Suc (Suc 0)"]) auto
  next
    case None
    have two: "wrapper_run M name failed meth (Suc (Suc n)) (AtLookup count, s) = wrapper_run M name failed meth n
        (if count + 1 < 5 then AtLookup (count + 1) else AtAssign None, do_usleep (10 * 1000) s1)" for n
      using None by (simp add: get)
    show ?thesis
    proof (cases "count + 1 < 5")
      case True
      then have "wait_for_service M name (count + 1) (do_usleep (10 * 1000) s1) = (b, s')" using w None by simp
      from "1.IH" [OF get [symmetric] refl _ refl refl True True this] None obtain n where
        n: "n \<le> 2 * (5 - (count + 1)) + 1"
          "wrapper_run M name failed meth n (AtLookup (count + 1), do_usleep (10 * 1000) s1) =
            (AtAssign b, case b of None \<Rightarrow> s' | Some x \<Rightarrow> do_observe x s')"
        by auto
      then have "wrapper_run M name failed meth (Suc (Suc n)) (AtLookup count, s) =
          (AtAssign b, case b of None \<Rightarrow> s' | Some x \<Rightarrow> do_observe x s')"
        using True by (simp only: two if_True)
      with n(1) True show ?thesis by (intro exI [of _ "Suc (Suc n)"]) auto
    next
      case False
      then have "wrapper_run M name failed meth (Suc (Suc 0)) (AtLookup count, s) =
          (AtAssign b, case b of None \<Rightarrow> s' | Some x \<Rightarrow> do_observe x s')"
        using w None by (auto simp: get)
      then show ?thesis using "1.prems"(1) by (intro exI [of _ "Suc (Suc 0)"]) auto
    qed
  qed
qed

text \<open>Alone, a call of the wrapper library in small steps is the call of the model: it returns
  after at most 20 steps with the same value and the same state, and never crashes.\<close>

lemma wrapper_alone:
  assumes "via_proxy M name failed meth s = (r, s')"
  shows "\<exists>n\<le>20. wrapper_run M name failed meth n (AtCheck, s) = (Returned r, s')"
proof (cases "g_proxy s")
  case (Some b)
  then have "wrapper_run M name failed meth (Suc (Suc 0)) (AtCheck, s) = (Returned r, s')"
    using assms by (auto simp: via_proxy_def ensure_proxy_hit split: prod.splits)
  then show ?thesis by (intro exI [of _ "Suc (Suc 0)"]) simp
next
  case None
  obtain b s1 where w: "wait_for_service M name 0 s = (b, s1)" by fastforce
  let ?s = "case b of None \<Rightarrow> s1 | Some x \<Rightarrow> do_observe x s1"
  obtain n where n: "n \<le> 11" "wrapper_run M name failed meth n (AtLookup 0, s) = (AtAssign b, ?s)"
    using lookup_run [OF _ w, of failed meth] by auto
  have e: "ensure_proxy M name s = (b, ?s\<lparr>g_proxy := b\<rparr>)"
    using None w by (auto simp: ensure_proxy_def service_client_def split: option.split)
  have "\<exists>k\<le>6. wrapper_run M name failed meth k (AtAssign b, ?s) = (Returned r, s')"
  proof (cases b)
    case None
    then have "wrapper_run M name failed meth (Suc (Suc (Suc (Suc 0)))) (AtAssign b, ?s) = (Returned r, s')"
      using assms e by (auto simp: via_proxy_def)
    then show ?thesis by (intro exI [of _ "Suc (Suc (Suc (Suc 0)))"]) simp
  next
    case (Some x)
    then have "wrapper_run M name failed meth (Suc (Suc (Suc (Suc (Suc (Suc 0)))))) (AtAssign b, ?s) = (Returned r, s')"
      using assms e by (auto simp: via_proxy_def split: prod.splits)
    then show ?thesis by (intro exI [of _ "Suc (Suc (Suc (Suc (Suc (Suc 0)))))"]) simp
  qed
  then obtain k where k: "k \<le> 6" "wrapper_run M name failed meth k (AtAssign b, ?s) = (Returned r, s')" by blast
  have "wrapper_run M name failed meth (Suc (Suc 0) + n + k) (AtCheck, s) = (Returned r, s')"
    using None n(2) k(2) by (simp add: run_add)
  with n(1) k(1) show ?thesis by (intro exI [of _ "Suc (Suc 0) + n + k"]) simp
qed

lemma wrapper_alone_witness:
  "\<exists>n\<le>20. wrapper_run (published_after 2 9) ''x'' (- 1 :: i32) (\<lambda>b w. (word_of_nat b, w)) n (AtCheck, client_start ()) =
     (Returned (fst (via_proxy (published_after 2 9) ''x'' (- 1 :: i32) (\<lambda>b w. (word_of_nat b, w)) (client_start ()))),
      snd (via_proxy (published_after 2 9) ''x'' (- 1 :: i32) (\<lambda>b w. (word_of_nat b, w)) (client_start ())))"
  by (rule wrapper_alone [OF prod.collapse [symmetric]])

subsection \<open>Calls of several threads\<close>

text \<open>
  The threads of a process are at a point each; one that has returned calls again.  A schedule
  says who moves next, or that the service dies, which clears the proxy.
\<close>

datatype schedule = Move nat | Death

type_synonym ('r, 'w) pool = "'r point list \<times> 'w client"

fun again :: "'r point \<Rightarrow> 'r point" where
  "again (Returned r) = AtCheck"
| "again p = p"

fun pool_step :: "sm_env \<Rightarrow> string \<Rightarrow> 'r \<Rightarrow> (ibinder \<Rightarrow> 'w \<Rightarrow> 'r \<times> 'w) \<Rightarrow> schedule \<Rightarrow> ('r, 'w) pool \<Rightarrow> ('r, 'w) pool" where
  "pool_step M name failed meth (Move i) (ps, s) =
     (if i < length ps then (let (p, s) = wrapper_step M name failed meth (again (ps ! i)) s in (ps[i := p], s))
      else (ps, s))"
| "pool_step M name failed meth Death (ps, s) = (ps, forget_proxy s)"

definition pool_run :: "sm_env \<Rightarrow> string \<Rightarrow> 'r \<Rightarrow> (ibinder \<Rightarrow> 'w \<Rightarrow> 'r \<times> 'w) \<Rightarrow> schedule list \<Rightarrow> ('r, 'w) pool \<Rightarrow> ('r, 'w) pool" where
  "pool_run M name failed meth sch c = fold (pool_step M name failed meth) sch c"

text \<open>Once the proxy is there, and nobody is in the middle of a look-up.\<close>

definition settled :: "('r, 'w) pool \<Rightarrow> bool" where
  "settled c \<longleftrightarrow> g_proxy (snd c) \<noteq> None \<and> (\<forall>p\<in>set (fst c). p = AtCheck \<or> p = AtUse \<or> (\<exists>r. p = Returned r))"

lemma settled_move:
  assumes "settled c"
  shows "settled (pool_step M name failed meth (Move i) c)"
proof -
  obtain ps s where c: "c = (ps, s)" by fastforce
  show ?thesis
  proof (cases "i < length ps")
    case True
    obtain b where b: "g_proxy s = Some b" using assms c by (auto simp: settled_def)
    have "ps ! i = AtCheck \<or> ps ! i = AtUse \<or> (\<exists>r. ps ! i = Returned r)"
      using assms c True by (auto simp: settled_def)
    then have "g_proxy (snd (wrapper_step M name failed meth (again (ps ! i)) s)) = Some b \<and>
        (fst (wrapper_step M name failed meth (again (ps ! i)) s) = AtUse \<or>
         (\<exists>r. fst (wrapper_step M name failed meth (again (ps ! i)) s) = Returned r))"
      using b by (auto split: prod.split)
    with assms c True show ?thesis
      by (auto simp: settled_def split_beta Let_def dest!: set_update_subset_insert [THEN subsetD])
  qed (use assms c in simp)
qed

text \<open>Calls are safe once the proxy is there: when no thread is in the middle of a look-up and
  the service does not die, no schedule of the calls of any number of threads makes one of them
  look the service up again or use a null proxy.\<close>

lemma settled_calls_safe:
  assumes "settled c" and "Death \<notin> set sch" and "pool_run M name failed meth sch c = c'"
  shows "settled c' \<and> Crashed \<notin> set (fst c')"
proof -
  have "settled (pool_run M name failed meth sch c)"
    using assms(1,2)
  proof (induction sch arbitrary: c)
    case (Cons a sch)
    then show ?case
      by (cases a) (simp_all add: pool_run_def settled_move del: pool_step.simps)
  qed (simp add: pool_run_def)
  with assms(3) show ?thesis by (auto simp: settled_def)
qed

lemma settled_calls_safe_witness:
  "Crashed \<notin> set (fst (pool_run (published_after 0 9) ''x'' (- 1 :: i32) (\<lambda>b w. (word_of_nat b, w))
     [Move 0, Move 1, Move 1, Move 0, Move 0] ([AtCheck, AtCheck], (client_start ())\<lparr>g_proxy := Some 9\<rparr>)))"
proof -
  have "settled ([AtCheck, AtCheck] :: i32 point list, (client_start ())\<lparr>g_proxy := Some 9\<rparr>)" by (simp add: settled_def)
  from settled_calls_safe [OF this _ refl] show ?thesis by simp
qed

text \<open>The check and the use of the proxy do not belong together: the death of the service
  between them, in any call that has found its proxy, makes the call go through a null pointer.\<close>

lemma death_between_check_and_use:
  assumes "g_proxy s = Some b" and "i < length ps" and "again (ps ! i) = AtCheck"
  shows "fst (pool_run M name failed meth [Move i, Death, Move i] (ps, s)) ! i = Crashed"
  using assms by (simp add: pool_run_def forget_proxy_def)

lemma death_between_check_and_use_witness:
  "fst (pool_run (published_after 0 9) ''x'' (- 1 :: i32) (\<lambda>b w. (word_of_nat b, w)) [Move 0, Death, Move 0]
     ([AtCheck], (client_start ())\<lparr>g_proxy := Some 9\<rparr>)) ! 0 = Crashed"
  by (rule death_between_check_and_use [of _ 9]) simp_all

subsection \<open>The first calls of a process\<close>

text \<open>
  The service is published within the attempts of one look-up: when the process has made \<open>k\<close>
  attempts, on all its threads together, the service manager knows it for good.
\<close>

definition published_within :: "nat \<Rightarrow> sm_env \<Rightarrow> string \<Rightarrow> ibinder \<Rightarrow> bool" where
  "published_within k M name b \<longleftrightarrow>
     (\<forall>tr. get_service M tr name = Some b \<or> get_service M tr name = None \<and> attempts tr < k)"

text \<open>What holds of a thread at a point, with \<open>a\<close> attempts made so far and the proxy \<open>x\<close>.\<close>

fun first_fits :: "nat \<Rightarrow> ibinder \<Rightarrow> (ibinder \<Rightarrow> 'w \<Rightarrow> 'r \<times> 'w) \<Rightarrow> nat \<Rightarrow> ibinder option \<Rightarrow> 'r point \<Rightarrow> bool" where
  "first_fits k b meth a x (AtLookup count) \<longleftrightarrow> count \<le> a"
| "first_fits k b meth a x (AtSleep count) \<longleftrightarrow> count < a \<and> count < k"
| "first_fits k b meth a x (AtObserve c) \<longleftrightarrow> c = b"
| "first_fits k b meth a x (AtAssign y) \<longleftrightarrow> y = Some b"
| "first_fits k b meth a x (AtStore y) \<longleftrightarrow> y = Some b"
| "first_fits k b meth a x (Returned r) \<longleftrightarrow> (\<exists>w. r = fst (meth b w))"
| "first_fits k b meth a x Crashed \<longleftrightarrow> False"
| "first_fits k b meth a x p \<longleftrightarrow> p \<in> {AtRecheck, AtRead, AtFinal, AtUse} \<longrightarrow> x = Some b"

lemma first_fits_mono:
  "first_fits k b meth a x p \<Longrightarrow> a \<le> a' \<Longrightarrow> x = Some b \<longrightarrow> x' = Some b \<Longrightarrow> first_fits k b meth a' x' p"
  by (cases p) auto

lemma first_fits_again: "first_fits k b meth a x p \<Longrightarrow> first_fits k b meth a x (again p)"
  by (cases p) auto

text \<open>A step of a thread keeps its own part and does not take the proxy away from the others.\<close>

lemma first_step:
  assumes "published_within k M name b" and "k < 5" and "wrapper_step M name failed meth p s = (p', s')"
    and "first_fits k b meth (attempts (sm_trace s)) (g_proxy s) p" and "g_proxy s \<in> {None, Some b}"
  shows "first_fits k b meth (attempts (sm_trace s')) (g_proxy s') p' \<and>
    attempts (sm_trace s) \<le> attempts (sm_trace s') \<and> g_proxy s' \<in> {None, Some b} \<and>
    (g_proxy s = Some b \<longrightarrow> g_proxy s' = Some b)"
proof (cases p)
  case (AtLookup count)
  have "get_service M (sm_trace s) name = Some b \<or>
      get_service M (sm_trace s) name = None \<and> attempts (sm_trace s) < k"
    using assms(1) by (simp add: published_within_def)
  then show ?thesis using assms(3-5) AtLookup by (auto simp: do_get_service_def Let_def)
next
  case AtUse
  then have "g_proxy s = Some b" using assms(4) by simp
  then show ?thesis using assms(3) AtUse by (auto split: prod.splits) (metis fst_conv)
qed (use assms(2-5) in \<open>auto simp: do_usleep_def do_observe_def split: if_splits\<close>)

definition first_inv :: "nat \<Rightarrow> ibinder \<Rightarrow> (ibinder \<Rightarrow> 'w \<Rightarrow> 'r \<times> 'w) \<Rightarrow> ('r, 'w) pool \<Rightarrow> bool" where
  "first_inv k b meth c \<longleftrightarrow> g_proxy (snd c) \<in> {None, Some b} \<and>
     (\<forall>p\<in>set (fst c). first_fits k b meth (attempts (sm_trace (snd c))) (g_proxy (snd c)) p)"

lemma first_move:
  assumes "published_within k M name b" and "k < 5" and "first_inv k b meth c"
  shows "first_inv k b meth (pool_step M name failed meth (Move i) c)"
proof -
  obtain ps s where c: "c = (ps, s)" by fastforce
  show ?thesis
  proof (cases "i < length ps")
    case True
    obtain p s' where st: "wrapper_step M name failed meth (again (ps ! i)) s = (p, s')" by fastforce
    have "first_fits k b meth (attempts (sm_trace s)) (g_proxy s) (again (ps ! i))" "g_proxy s \<in> {None, Some b}"
      using assms(3) c True by (auto simp: first_inv_def intro: first_fits_again)
    note fits = first_step [OF assms(1,2) st this]
    have "first_fits k b meth (attempts (sm_trace s')) (g_proxy s') q" if "q \<in> set (ps[i := p])" for q
      using set_update_subset_insert [THEN subsetD, OF that] fits assms(3) c
      by (auto simp: first_inv_def intro: first_fits_mono)
    with fits True c st show ?thesis by (simp add: first_inv_def)
  qed (use assms(3) c in simp)
qed

lemma first_run:
  assumes "published_within k M name b" and "k < 5"
  shows "first_inv k b meth c \<Longrightarrow> Death \<notin> set sch \<Longrightarrow> first_inv k b meth (pool_run M name failed meth sch c)"
proof (induction sch arbitrary: c)
  case (Cons a sch)
  then show ?case by (cases a) (simp_all add: pool_run_def first_move [OF assms] del: pool_step.simps)
qed (simp add: pool_run_def)

text \<open>C33.  The first calls of a process are safe on any number of threads when the service is published
  in time: if the service manager knows the service once the process has made \<open>k\<close> attempts, \<open>k\<close> being
  less than the five of a look-up, and the service does not die, then in no schedule does a call use
  a null proxy, and every call that returns has the answer of the service and not the \<open>-1\<close> of a failed
  look-up, although nothing locks the proxy.\<close>

theorem first_calls_safe:
  assumes "published_within k M name b" and "k < 5" and "Death \<notin> set sch"
    and "pool_run M name failed meth sch (replicate n AtCheck, client_start w) = (ps, s)"
  shows "Crashed \<notin> set ps \<and> (\<forall>r. Returned r \<in> set ps \<longrightarrow> (\<exists>w'. r = fst (meth b w')))"
proof -
  have "first_inv k b meth (replicate n AtCheck, client_start w)"
    by (auto simp: first_inv_def client_start_def)
  from first_run [OF assms(1,2) this assms(3), of failed] assms(4) show ?thesis
    by (fastforce simp: first_inv_def)
qed

text \<open>The service appears behind the second attempt, when two threads have looked for it in vain.\<close>

definition first_schedule :: "schedule list" where
  "first_schedule = [Move 0, Move 0, Move 0, Move 1, Move 1, Move 1, Move 1, Move 0, Move 0, Move 1,
     Move 0, Move 1, Move 0, Move 1, Move 0, Move 1, Move 0, Move 1, Move 0, Move 1, Move 0, Move 1, Move 0, Move 1]"

lemma first_calls_safe_witness:
  "\<exists>ps s. pool_run (published_after 2 9) ''x'' 0 Pair first_schedule
     (replicate 2 AtCheck, client_start ()) = (ps, s) \<and> Crashed \<notin> set ps \<and> Returned 9 \<in> set ps"
proof -
  let ?w = "pool_run (published_after 2 9) ''x'' 0 Pair first_schedule
     (replicate 2 AtCheck, client_start ())"
  have p: "published_within 2 (published_after 2 9) ''x'' 9"
    by (simp add: published_within_def published_after_def)
  obtain ps s where w: "?w = (ps, s)" by fastforce
  have "fst ?w = [Returned 9, Returned 9]"
    by (simp add: first_schedule_def pool_run_def client_start_def do_get_service_def do_usleep_def do_observe_def
        published_after_def Let_def numeral_2_eq_2)
  with w have "Returned 9 \<in> set ps" by simp
  moreover have "Death \<notin> set first_schedule" by (simp add: first_schedule_def)
  then have "Crashed \<notin> set ps" using first_calls_safe [OF p _ _ w] by simp
  ultimately show ?thesis using w by blast
qed

text \<open>One attempt later they are not: when the service is published while one thread waits behind its
  last attempt, the other finds it, and the first then overwrites the proxy with null.\<close>

lemma late_lookup_crashes:
  "\<exists>sch. Death \<notin> set sch \<and>
     fst (pool_run (published_after 5 b) name failed meth sch ([AtCheck, AtCheck], client_start w)) ! 1 = Crashed"
proof -
  let ?sch = "[Move 0, Move 0, Move 0, Move 0, Move 0, Move 0, Move 0, Move 0, Move 0, Move 0, Move 0, Move 0,
    Move 1, Move 1, Move 1, Move 1, Move 1, Move 1, Move 1, Move 1, Move 1, Move 0, Move 1]"
  have "fst (pool_run (published_after 5 b) name failed meth ?sch ([AtCheck, AtCheck], client_start w)) ! 1 = Crashed"
    by (simp add: pool_run_def client_start_def do_get_service_def do_usleep_def do_observe_def
        published_after_def Let_def)
  then show ?thesis by (intro exI [of _ ?sch]) simp
qed

end
