(* ===== verification/TeeClient.thy ===== *)
theory TeeClient
  imports Prelude
begin

text \<open>
  \<open>libese_spi_client/libese_spi_client.cpp\<close>: the calls of the secure element's trusted
  application.  The TEE client library (\<open>libmtee.so\<close>, a binary) is a parameter: every call is
  logged (newest first) and answered from the log.  A memory object is its bytes, so a
  \<open>memcpy\<close> past its end is a fault; a pointer is the object it points to, or \<open>None\<close>.
\<close>

subsection \<open>The TEE client library\<close>

text \<open>
  The result codes, as they are in the header (each also exists under a name with the prefix
  \<open>TEEIC\<close> and the same value).
\<close>

datatype teec_result =
    TEEC_SUCCESS | TEEC_ERROR_INTERNAL | TEEC_ERROR_RESOURCE_LIMIT | TEEC_ERROR_DEVICE_BUSY
  | TEEC_ERROR_DEVICE_HANDLE_INVALID | TEEC_ERROR_DEVICE_OVERFLOW
  | TEEC_ERROR_DEVICE_EVENT_INVALID | TEEC_ERROR_TA_NOT_EXIST | TEEC_ERROR_HOST_NAME_EXIST
  | TEEC_ERROR_HOST_NOT_EXIST | TEEC_ERROR_GATE_NOT_EXIST | TEEC_ERROR_PIPE_CREATE_DENIED
  | TEEC_ERROR_PIPE_BUSY | TEEC_ERROR_NETWORK_ERROR | TEEC_ERROR_CIPHERTEXT_ERROR
  | TEEC_ERROR_UNIQUE_CONFLICT | TEEC_ERROR_GENERIC | TEEC_ERROR_ACCESS_DENIED
  | TEEC_ERROR_CANCEL | TEEC_ERROR_ACCESS_CONFLICT | TEEC_ERROR_EXCESS_DATA
  | TEEC_ERROR_BAD_FORMAT | TEEC_ERROR_BAD_PARAMETERS | TEEC_ERROR_BAD_STATE
  | TEEC_ERROR_ITEM_NOT_FOUND | TEEC_ERROR_NOT_IMPLEMENTED | TEEC_ERROR_NOT_SUPPORTED
  | TEEC_ERROR_NO_DATA | TEEC_ERROR_OUT_OF_MEMORY | TEEC_ERROR_BUSY
  | TEEC_ERROR_COMMUNICATION | TEEC_ERROR_SECURITY | TEEC_ERROR_SHORT_BUFFER
  | TEEC_ERROR_MAC_INVALID | TEEC_ERROR_VNET_INVALID | TEEC_ERROR_REEAGENT_INVALID
  | TEEC_UNDEFINED_ERROR

fun teec_value :: "teec_result \<Rightarrow> u32" where
  "teec_value TEEC_SUCCESS = 0x0"
| "teec_value TEEC_ERROR_INTERNAL = 0x00000001"
| "teec_value TEEC_ERROR_RESOURCE_LIMIT = 0x00000002"
| "teec_value TEEC_ERROR_DEVICE_BUSY = 0x00000003"
| "teec_value TEEC_ERROR_DEVICE_HANDLE_INVALID = 0x00000004"
| "teec_value TEEC_ERROR_DEVICE_OVERFLOW = 0x00000005"
| "teec_value TEEC_ERROR_DEVICE_EVENT_INVALID = 0x00000006"
| "teec_value TEEC_ERROR_TA_NOT_EXIST = 0x00000009"
| "teec_value TEEC_ERROR_HOST_NAME_EXIST = 0x0000000a"
| "teec_value TEEC_ERROR_HOST_NOT_EXIST = 0x0000000b"
| "teec_value TEEC_ERROR_GATE_NOT_EXIST = 0x0000000c"
| "teec_value TEEC_ERROR_PIPE_CREATE_DENIED = 0x0000000d"
| "teec_value TEEC_ERROR_PIPE_BUSY = 0x0000000e"
| "teec_value TEEC_ERROR_NETWORK_ERROR = 0x00000010"
| "teec_value TEEC_ERROR_CIPHERTEXT_ERROR = 0x00000011"
| "teec_value TEEC_ERROR_UNIQUE_CONFLICT = 0x00000012"
| "teec_value TEEC_ERROR_GENERIC = 0xFFFF0000"
| "teec_value TEEC_ERROR_ACCESS_DENIED = 0xFFFF0001"
| "teec_value TEEC_ERROR_CANCEL = 0xFFFF0002"
| "teec_value TEEC_ERROR_ACCESS_CONFLICT = 0xFFFF0003"
| "teec_value TEEC_ERROR_EXCESS_DATA = 0xFFFF0004"
| "teec_value TEEC_ERROR_BAD_FORMAT = 0xFFFF0005"
| "teec_value TEEC_ERROR_BAD_PARAMETERS = 0xFFFF0006"
| "teec_value TEEC_ERROR_BAD_STATE = 0xFFFF0007"
| "teec_value TEEC_ERROR_ITEM_NOT_FOUND = 0xFFFF0008"
| "teec_value TEEC_ERROR_NOT_IMPLEMENTED = 0xFFFF0009"
| "teec_value TEEC_ERROR_NOT_SUPPORTED = 0xFFFF000A"
| "teec_value TEEC_ERROR_NO_DATA = 0xFFFF000B"
| "teec_value TEEC_ERROR_OUT_OF_MEMORY = 0xFFFF000C"
| "teec_value TEEC_ERROR_BUSY = 0xFFFF000D"
| "teec_value TEEC_ERROR_COMMUNICATION = 0xFFFF000E"
| "teec_value TEEC_ERROR_SECURITY = 0xFFFF000F"
| "teec_value TEEC_ERROR_SHORT_BUFFER = 0xFFFF0010"
| "teec_value TEEC_ERROR_MAC_INVALID = 0xFFFF3071"
| "teec_value TEEC_ERROR_VNET_INVALID = 0xFFFF6000"
| "teec_value TEEC_ERROR_REEAGENT_INVALID = 0xFFFF6001"
| "teec_value TEEC_UNDEFINED_ERROR = 0xFFFF7001"

text \<open>The codes are ordered by their values, which are all different.\<close>

definition teec_results :: "teec_result list" where
  "teec_results =
    [TEEC_SUCCESS, TEEC_ERROR_INTERNAL, TEEC_ERROR_RESOURCE_LIMIT, TEEC_ERROR_DEVICE_BUSY,
     TEEC_ERROR_DEVICE_HANDLE_INVALID, TEEC_ERROR_DEVICE_OVERFLOW,
     TEEC_ERROR_DEVICE_EVENT_INVALID, TEEC_ERROR_TA_NOT_EXIST, TEEC_ERROR_HOST_NAME_EXIST,
     TEEC_ERROR_HOST_NOT_EXIST, TEEC_ERROR_GATE_NOT_EXIST, TEEC_ERROR_PIPE_CREATE_DENIED,
     TEEC_ERROR_PIPE_BUSY, TEEC_ERROR_NETWORK_ERROR, TEEC_ERROR_CIPHERTEXT_ERROR,
     TEEC_ERROR_UNIQUE_CONFLICT, TEEC_ERROR_GENERIC, TEEC_ERROR_ACCESS_DENIED, TEEC_ERROR_CANCEL,
     TEEC_ERROR_ACCESS_CONFLICT, TEEC_ERROR_EXCESS_DATA, TEEC_ERROR_BAD_FORMAT,
     TEEC_ERROR_BAD_PARAMETERS, TEEC_ERROR_BAD_STATE, TEEC_ERROR_ITEM_NOT_FOUND,
     TEEC_ERROR_NOT_IMPLEMENTED, TEEC_ERROR_NOT_SUPPORTED, TEEC_ERROR_NO_DATA,
     TEEC_ERROR_OUT_OF_MEMORY, TEEC_ERROR_BUSY, TEEC_ERROR_COMMUNICATION, TEEC_ERROR_SECURITY,
     TEEC_ERROR_SHORT_BUFFER, TEEC_ERROR_MAC_INVALID, TEEC_ERROR_VNET_INVALID,
     TEEC_ERROR_REEAGENT_INVALID, TEEC_UNDEFINED_ERROR]"

lemma in_teec_results: "r \<in> set teec_results"
  by (cases r) (simp_all add: teec_results_def)

lemma teec_value_inject: "teec_value r = teec_value r' \<longleftrightarrow> r = r'"
proof
  have "distinct (map teec_value teec_results)" by (simp add: teec_results_def)
  then have "inj_on teec_value (set teec_results)" by (simp add: distinct_map)
  then show "teec_value r = teec_value r' \<Longrightarrow> r = r'" by (auto dest: inj_onD simp: in_teec_results)
qed simp

instantiation teec_result :: linorder
begin

definition less_eq_teec_result :: "teec_result \<Rightarrow> teec_result \<Rightarrow> bool" where
  "less_eq_teec_result r r' \<longleftrightarrow> teec_value r \<le> teec_value r'"

definition less_teec_result :: "teec_result \<Rightarrow> teec_result \<Rightarrow> bool" where
  "less_teec_result r r' \<longleftrightarrow> teec_value r < teec_value r'"

instance
  by standard (auto simp: less_eq_teec_result_def less_teec_result_def
      intro: teec_value_inject [THEN iffD1, OF order_antisym])

end

definition TEEC_PARAM_TYPES :: "u32 \<Rightarrow> u32 \<Rightarrow> u32 \<Rightarrow> u32 \<Rightarrow> u32" where
  "TEEC_PARAM_TYPES t0 t1 t2 t3 = push_bit 12 t3 OR push_bit 8 t2 OR push_bit 4 t1 OR t0"

record TEEC_UUID =
  timeLow :: u32
  timeMid :: u16
  timeHiAndVersion :: u16
  clockSeqAndNode :: "u8 list"

text \<open>The two shared memory blocks a call uses, by their role.\<close>

datatype block = InputSm | OutputSm

datatype tee_event =
    TeInit string u32
  | TeOpen TEEC_UUID u32
  | TeAlloc block u32 u32
  | TeInvoke u32 "u8 list" u32 u32
  | TeRelease block
  | TeClose
  | TeFinalize

text \<open>
  The answers: status codes; the initial contents of an allocated block; and for an
  invocation its status, the bytes the trusted application writes at the start of the output
  block, and the size it reports.
\<close>

record tee_env =
  tee_init :: "tee_event list \<Rightarrow> string \<Rightarrow> u32"
  tee_open :: "tee_event list \<Rightarrow> TEEC_UUID \<Rightarrow> u32"
  tee_alloc :: "tee_event list \<Rightarrow> block \<Rightarrow> u32 \<Rightarrow> u32"
  tee_invoke :: "tee_event list \<Rightarrow> u32 \<Rightarrow> u8 list \<Rightarrow> u32 \<Rightarrow> u32 \<times> u8 list \<times> u32"

definition overlay :: "u8 list \<Rightarrow> u8 list \<Rightarrow> u8 list" where
  "overlay ws buf = take (length buf) (ws @ drop (length ws) buf)"

lemma length_overlay [simp]: "length (overlay ws buf) = length buf"
  by (simp add: overlay_def)

definition do_init :: "tee_env \<Rightarrow> string \<Rightarrow> tee_event list \<Rightarrow> u32 \<times> tee_event list" where
  "do_init E h tr = (let r = tee_init E tr h in (r, TeInit h r # tr))"

definition do_tee_open :: "tee_env \<Rightarrow> TEEC_UUID \<Rightarrow> tee_event list \<Rightarrow> u32 \<times> tee_event list" where
  "do_tee_open E u tr = (let r = tee_open E tr u in (r, TeOpen u r # tr))"

definition do_alloc :: "tee_env \<Rightarrow> block \<Rightarrow> u32 \<Rightarrow> tee_event list \<Rightarrow> u32 \<times> tee_event list" where
  "do_alloc E b n tr = (let r = tee_alloc E tr b n in (r, TeAlloc b n r # tr))"

text \<open>
  \<open>TEEC_InvokeCommand\<close> with a partial input reference to the first \<open>insize\<close> bytes of the input
  block and an output reference of size \<open>outsize\<close> to the output block \<open>buf\<close>.
\<close>

definition do_invoke :: "tee_env \<Rightarrow> u32 \<Rightarrow> u8 list \<Rightarrow> u32 \<Rightarrow> u8 list \<Rightarrow> tee_event list \<Rightarrow>
    (u32 \<times> u8 list \<times> u32) \<times> tee_event list" where
  "do_invoke E cmd inp outsize buf tr =
     (let (r, ws, n) = tee_invoke E tr cmd inp outsize
      in ((r, overlay ws buf, n), TeInvoke cmd inp outsize r # tr))"

subsection \<open>Constants\<close>

definition INIT_CONTEXT_FAILED :: u32 where "INIT_CONTEXT_FAILED = 100"
definition OPEN_SESSION_FAILED :: u32 where "OPEN_SESSION_FAILED = 101"
definition OPEN_BASIC_CHANNEL :: u32 where "OPEN_BASIC_CHANNEL = 0x0001"
definition OPEN_LOGICAL_CHANNEL :: u32 where "OPEN_LOGICAL_CHANNEL = 0x0002"
definition CHANNEL_TRANSMIT :: u32 where "CHANNEL_TRANSMIT = 0x0003"
definition CLOSE_CHANNEL :: u32 where "CLOSE_CHANNEL = 0x0004"
definition HAL_TRANSMIT :: u32 where "HAL_TRANSMIT = 0x0008"
definition ESESPI_TEST :: u32 where "ESESPI_TEST = 0x0009"
definition BIG_INT_LENGTH :: u32 where "BIG_INT_LENGTH = 256"

definition hostName :: string where "hostName = ''seapitester''"

definition uuid_ta :: TEEC_UUID where
  "uuid_ta = \<lparr>timeLow = 0x01020304, timeMid = 0x0506, timeHiAndVersion = 0x0708,
     clockSeqAndNode = [0x99, 0x0A, 0x0B, 0x0C, 0x0D, 0x0E, 0x0F, 0x10]\<rparr>"

definition getCplc_cmd :: "u8 list" where "getCplc_cmd = [0x80, 0xca, 0x9f, 0x7f, 0x00]"

subsection \<open>Context and session\<close>

text \<open>\<open>init\<close>.\<close>

definition tee_start :: "tee_env \<Rightarrow> tee_event list \<Rightarrow> u32 \<times> tee_event list" where
  "tee_start E tr =
     (let (result, tr) = do_init E hostName tr in
      if result \<noteq> teec_value TEEC_SUCCESS then (INIT_CONTEXT_FAILED, tr)
      else let (result, tr) = do_tee_open E uuid_ta tr in
        if result \<noteq> teec_value TEEC_SUCCESS then (OPEN_SESSION_FAILED, tr) else (0, tr))"

text \<open>The cleanup labels, each falling through to the next; the value is \<open>0 - result\<close>.\<close>

definition cleanup1 :: "u32 \<Rightarrow> tee_event list \<Rightarrow> i32 \<times> tee_event list" where
  "cleanup1 result tr = (0 - result, tr)"

definition cleanup2 :: "u32 \<Rightarrow> tee_event list \<Rightarrow> i32 \<times> tee_event list" where
  "cleanup2 result tr = cleanup1 result (TeFinalize # tr)"

definition cleanup3 :: "u32 \<Rightarrow> tee_event list \<Rightarrow> i32 \<times> tee_event list" where
  "cleanup3 result tr = cleanup2 result (TeClose # tr)"

definition cleanup4 :: "u32 \<Rightarrow> tee_event list \<Rightarrow> i32 \<times> tee_event list" where
  "cleanup4 result tr = cleanup3 result (TeRelease InputSm # tr)"

definition cleanup5 :: "u32 \<Rightarrow> tee_event list \<Rightarrow> i32 \<times> tee_event list" where
  "cleanup5 result tr = cleanup4 result (TeRelease OutputSm # tr)"

lemmas cleanup_defs = cleanup5_def cleanup4_def cleanup3_def cleanup2_def cleanup1_def

subsection \<open>One exchange with the trusted application\<close>

text \<open>
  The body that \<open>ca_sendEseCommand\<close> and \<open>ca_getEseCplc\<close> share, from \<open>init\<close> on: \<open>insize\<close> reads the
  size of the command, \<open>inp\<close> copies the command itself (both may fault), the output block has
  \<open>outsize\<close> bytes, and on success \<open>store\<close> copies the block and the reported size to the
  caller's memory \<open>mem\<close>.
\<close>

definition leave :: "(u32 \<Rightarrow> tee_event list \<Rightarrow> i32 \<times> tee_event list) \<Rightarrow> u32 \<Rightarrow> 'm \<Rightarrow> tee_event list \<Rightarrow>
    (i32 \<times> 'm) outcome \<times> tee_event list" where
  "leave cleanup result mem tr = (let (r, tr) = cleanup result tr in (Inr (r, mem), tr))"

definition ca_exchange :: "tee_env \<Rightarrow> u32 outcome \<Rightarrow> (u32 \<Rightarrow> u8 list outcome) \<Rightarrow> u32 \<Rightarrow>
    (u8 list \<Rightarrow> u32 \<Rightarrow> 'm outcome) \<Rightarrow> 'm \<Rightarrow> tee_event list \<Rightarrow> (i32 \<times> 'm) outcome \<times> tee_event list" where
  "ca_exchange E insize inp outsize store mem tr =
     (let (ret, tr) = tee_start E tr in
      if ret = INIT_CONTEXT_FAILED then leave cleanup1 INIT_CONTEXT_FAILED mem tr
      else if ret = OPEN_SESSION_FAILED then leave cleanup2 OPEN_SESSION_FAILED mem tr
      else case insize of Inl f \<Rightarrow> (Inl f, tr)
      | Inr n \<Rightarrow>
        (let (result, tr) = do_alloc E InputSm n tr in
         if result \<noteq> teec_value TEEC_SUCCESS then leave cleanup4 result mem tr
         else case inp n of Inl f \<Rightarrow> (Inl f, tr)
         | Inr ibuf \<Rightarrow>
           (let (result, tr) = do_alloc E OutputSm outsize tr in
            if result \<noteq> teec_value TEEC_SUCCESS then leave cleanup5 result mem tr
            else let obuf = replicate (unat outsize) 0;
                     ((result, obuf, rsize), tr) = do_invoke E HAL_TRANSMIT ibuf outsize obuf tr
              in if result \<noteq> teec_value TEEC_SUCCESS then leave cleanup5 result mem tr
                 else case store obuf rsize of Inl f \<Rightarrow> (Inl f, tr)
                   | Inr mem \<Rightarrow> leave cleanup5 result mem tr)))"

text \<open>
  The memory of a caller's command is a \<open>send_cmd\<close> (\<open>cmd_len\<close>, then \<open>tApdu\<close>), that of its
  response a \<open>send_cmd_rsp\<close> (\<open>rsp_len\<close>, then \<open>rApdu\<close>).  The copy of the response writes
  \<open>rsp_len\<close> first.
\<close>

definition cmd_len :: "u8 list \<Rightarrow> u32 outcome" where
  "cmd_len cmd = map_sum id le_word (mem_read cmd 0 4)"

definition tApdu :: "u8 list \<Rightarrow> u32 \<Rightarrow> u8 list outcome" where
  "tApdu cmd n = mem_read cmd 4 (unat n)"

definition store_rsp :: "u8 list \<Rightarrow> u8 list \<Rightarrow> u32 \<Rightarrow> u8 list outcome" where
  "store_rsp rsp obuf rsize =
     (case mem_write rsp 0 (le_bytes rsize) of Inl f \<Rightarrow> Inl f
      | Inr rsp \<Rightarrow> (case mem_read obuf 0 (unat rsize) of Inl f \<Rightarrow> Inl f
          | Inr bs \<Rightarrow> mem_write rsp 4 bs))"

definition ca_sendEseCommand :: "tee_env \<Rightarrow> u8 list option \<Rightarrow> u32 \<Rightarrow> u8 list option \<Rightarrow> u32 \<Rightarrow>
    tee_event list \<Rightarrow> (i32 \<times> u8 list option) outcome \<times> tee_event list" where
  "ca_sendEseCommand E cmd cmdLen rsp rspLen tr =
     (case (cmd, rsp) of
        (Some c, Some p) \<Rightarrow>
          if cmdLen = 0 \<or> rspLen = 0 then (Inr (- 1, rsp), tr)
          else ca_exchange E (cmd_len c) (tApdu c) rspLen
            (\<lambda>obuf rsize. map_sum id Some (store_rsp p obuf rsize)) rsp tr
      | _ \<Rightarrow> (Inr (- 1, rsp), tr))"

text \<open>
  \<open>ca_getEseCplc\<close>: the caller's memory is the buffer with the length it points to.  A null
  \<open>cplc_len\<close> is dereferenced, except when the buffer is null too.
\<close>

definition store_cplc :: "u8 list \<Rightarrow> u8 list \<Rightarrow> u32 \<Rightarrow> (u8 list option \<times> u32 option) outcome" where
  "store_cplc buf obuf rsize =
     (case mem_read obuf 0 (unat rsize) of Inl f \<Rightarrow> Inl f
      | Inr bs \<Rightarrow> map_sum id (\<lambda>b. (Some b, Some rsize)) (mem_write buf 0 bs))"

definition ca_getEseCplc :: "tee_env \<Rightarrow> u8 list option \<Rightarrow> u32 option \<Rightarrow> tee_event list \<Rightarrow>
    (i32 \<times> u8 list option \<times> u32 option) outcome \<times> tee_event list" where
  "ca_getEseCplc E cplc_buf cplc_len tr =
     (case cplc_buf of None \<Rightarrow> (Inr (- EINVAL, cplc_buf, cplc_len), tr)
      | Some buf \<Rightarrow> (case cplc_len of None \<Rightarrow> (Inl NullDeref, tr)
         | Some len \<Rightarrow>
            if len = 0 then (Inr (- EINVAL, cplc_buf, cplc_len), tr)
            else ca_exchange E (Inr (word_of_nat (length getCplc_cmd))) (\<lambda>n. mem_read getCplc_cmd 0 (unat n))
              len (store_cplc buf) (cplc_buf, cplc_len) tr))"

subsection \<open>The protocol of the TEE client library\<close>

text \<open>
  The rules of the GlobalPlatform client interface that \<open>tee_client_api.h\<close> states, as an
  automaton over the log: one context, a session in it, shared memory of the context, a
  command only in the session with both blocks allocated, and nothing left when the context
  is finalised.  A block may be released once it has been initialised by an allocation, which is
  over after the release: a failed allocation has set its buffer to null (the header demands it),
  and such a structure counts as initialised here, so its release is a no-op; a structure that no
  allocation was tried for must not be released.
\<close>

datatype memory = Unused | Nulled | Held

record tee_state =
  in_context :: bool
  in_session :: bool
  in_mem :: memory
  out_mem :: memory

definition allocated :: "u32 \<Rightarrow> memory" where
  "allocated r = (if r = 0 then Held else Nulled)"

definition tee_idle :: tee_state where
  "tee_idle = \<lparr>in_context = False, in_session = False, in_mem = Unused, out_mem = Unused\<rparr>"

fun tee_move :: "tee_event \<Rightarrow> tee_state \<Rightarrow> tee_state option" where
  "tee_move (TeInit h r) q = (if in_context q then None else Some (q\<lparr>in_context := (r = 0)\<rparr>))"
| "tee_move (TeOpen u r) q =
     (if in_context q \<and> \<not> in_session q then Some (q\<lparr>in_session := (r = 0)\<rparr>) else None)"
| "tee_move (TeAlloc InputSm n r) q =
     (if in_context q \<and> in_mem q \<noteq> Held then Some (q\<lparr>in_mem := allocated r\<rparr>) else None)"
| "tee_move (TeAlloc OutputSm n r) q =
     (if in_context q \<and> out_mem q \<noteq> Held then Some (q\<lparr>out_mem := allocated r\<rparr>) else None)"
| "tee_move (TeInvoke c i n r) q = (if in_session q \<and> in_mem q = Held \<and> out_mem q = Held then Some q else None)"
| "tee_move (TeRelease InputSm) q =
     (if in_context q \<and> in_mem q \<noteq> Unused then Some (q\<lparr>in_mem := Unused\<rparr>) else None)"
| "tee_move (TeRelease OutputSm) q =
     (if in_context q \<and> out_mem q \<noteq> Unused then Some (q\<lparr>out_mem := Unused\<rparr>) else None)"
| "tee_move TeClose q = (if in_session q then Some (q\<lparr>in_session := False\<rparr>) else None)"
| "tee_move TeFinalize q =
     (if in_context q \<and> \<not> in_session q \<and> in_mem q \<noteq> Held \<and> out_mem q \<noteq> Held
      then Some (q\<lparr>in_context := False, in_mem := Unused, out_mem := Unused\<rparr>) else None)"

fun tee_replay :: "tee_event list \<Rightarrow> tee_state option" where
  "tee_replay [] = Some tee_idle"
| "tee_replay (e # tr) = Option.bind (tee_replay tr) (tee_move e)"

lemma exchange_protocol:
  assumes "ca_exchange E insize inp outsize store mem tr = (Inr x, tr')"
    and "tee_replay tr = Some tee_idle"
  shows "tee_replay tr' = Some tee_idle"
  using assms
  by (auto simp: ca_exchange_def tee_start_def do_init_def do_tee_open_def do_alloc_def do_invoke_def
      leave_def cleanup_defs Let_def INIT_CONTEXT_FAILED_def OPEN_SESSION_FAILED_def
      tee_idle_def allocated_def split: if_splits sum.splits prod.splits)

text \<open>What a routine that uses the library owes it: whenever it returns, it leaves nothing open.\<close>

locale tee_routine =
  fixes run :: "tee_event list \<Rightarrow> 'a outcome \<times> tee_event list"
  assumes leaves_idle: "run tr = (Inr x, tr') \<Longrightarrow> tee_replay tr = Some tee_idle \<Longrightarrow> tee_replay tr' = Some tee_idle"
begin

text \<open>So it can be used any number of times in a row.\<close>

lemma iterate_idle:
  "\<lbrakk>\<And>tr'. tee_replay tr' = Some tee_idle \<Longrightarrow> \<exists>x. fst (run tr') = Inr x; tee_replay tr = Some tee_idle\<rbrakk> \<Longrightarrow>
    tee_replay (((\<lambda>t. snd (run t)) ^^ n) tr) = Some tee_idle"
proof (induction n)
  case (Suc n)
  let ?t = "((\<lambda>t. snd (run t)) ^^ n) tr"
  have "tee_replay ?t = Some tee_idle" using Suc by blast
  moreover from this obtain x where "run ?t = (Inr x, snd (run ?t))"
    using Suc.prems(1) by (metis prod.collapse)
  ultimately show ?case using leaves_idle by simp
qed simp

end

interpretation send_command: tee_routine "ca_sendEseCommand E cmd cmdLen rsp rspLen" for E cmd cmdLen rsp rspLen
  by unfold_locales (auto simp: ca_sendEseCommand_def split: option.splits if_splits dest: exchange_protocol)

interpretation get_cplc: tee_routine "ca_getEseCplc E buf len" for E buf len
  by unfold_locales (auto simp: ca_getEseCplc_def split: option.splits if_splits dest: exchange_protocol)

text \<open>C11.  Whatever the TEE library answers, a command and a CPLC request follow the rules
  of the library and clean up on every path on which they return: the blocks are released, the
  session closed and the context finalised, in this order.\<close>

theorem calls_clean_up:
  assumes "tee_replay tr = Some tee_idle"
  shows "(\<forall>x tr'. ca_sendEseCommand E cmd cmdLen rsp rspLen tr = (Inr x, tr') \<longrightarrow>
      tee_replay tr' = Some tee_idle) \<and>
    (\<forall>x tr'. ca_getEseCplc E buf len tr = (Inr x, tr') \<longrightarrow> tee_replay tr' = Some tee_idle)"
  using assms send_command.leaves_idle get_cplc.leaves_idle by blast

subsection \<open>Result codes\<close>

text \<open>What \<open>return (0 - result)\<close> makes of the result codes: the vendor's small codes
  become negative, but every GlobalPlatform error (\<open>0xFFFF....\<close>) becomes positive, so a caller
  that tests for a negative value takes it for a success.\<close>

lemma negated_result_sign:
  "fst (cleanup1 (teec_value r) tr) \<noteq> 0 \<and> \<not> is_neg (fst (cleanup1 (teec_value r) tr)) \<longleftrightarrow>
     TEEC_ERROR_GENERIC \<le> r"
  by (cases r) (simp_all add: cleanup1_def is_neg_minus word_le_nat_alt less_eq_teec_result_def)

subsection \<open>What an exchange does\<close>

text \<open>A library in which everything up to the invocation succeeds, and the log at that point.\<close>

definition tee_willing :: "tee_env \<Rightarrow> bool" where
  "tee_willing E \<longleftrightarrow> (\<forall>tr h. tee_init E tr h = 0) \<and> (\<forall>tr u. tee_open E tr u = 0) \<and>
     (\<forall>tr b n. tee_alloc E tr b n = 0)"

definition tee_ready :: "u32 \<Rightarrow> u32 \<Rightarrow> tee_event list \<Rightarrow> tee_event list" where
  "tee_ready n out tr = [TeAlloc OutputSm out 0, TeAlloc InputSm n 0, TeOpen uuid_ta 0, TeInit hostName 0] @ tr"

definition tee_left :: "u32 \<Rightarrow> u8 list \<Rightarrow> u32 \<Rightarrow> u32 \<Rightarrow> tee_event list \<Rightarrow> tee_event list" where
  "tee_left cmd inp out r tr =
     [TeFinalize, TeClose, TeRelease InputSm, TeRelease OutputSm, TeInvoke cmd inp out r] @ tr"

lemma exchange_willing:
  assumes "tee_willing E" and "inp n = Inr ibuf"
    and "tee_invoke E (tee_ready n out tr) HAL_TRANSMIT ibuf out = (r, ws, m)"
  shows "ca_exchange E (Inr n) inp out store mem tr =
    (if r \<noteq> 0 then (Inr (0 - r, mem), tee_left HAL_TRANSMIT ibuf out r (tee_ready n out tr))
     else case store (overlay ws (replicate (unat out) 0)) m of
       Inl f \<Rightarrow> (Inl f, TeInvoke HAL_TRANSMIT ibuf out 0 # tee_ready n out tr)
     | Inr mem' \<Rightarrow> (Inr (0, mem'), tee_left HAL_TRANSMIT ibuf out 0 (tee_ready n out tr)))"
  using assms
  by (simp add: ca_exchange_def tee_start_def do_init_def do_tee_open_def do_alloc_def do_invoke_def
      leave_def cleanup_defs Let_def INIT_CONTEXT_FAILED_def OPEN_SESSION_FAILED_def
      tee_willing_def tee_ready_def tee_left_def split: sum.splits)

lemma exchange_willing_fault:
  assumes "tee_willing E"
  shows "\<exists>tr'. ca_exchange E (Inl f) inp out store mem tr = (Inl f, tr')"
    "inp n = Inl f \<Longrightarrow> \<exists>tr'. ca_exchange E (Inr n) inp out store mem tr = (Inl f, tr')"
  using assms
  by (auto simp: ca_exchange_def tee_start_def do_init_def do_tee_open_def do_alloc_def
      Let_def INIT_CONTEXT_FAILED_def OPEN_SESSION_FAILED_def tee_willing_def)

lemma overlay_all: "length ws \<le> n \<Longrightarrow> take (length ws) (overlay ws (replicate n x)) = ws"
  by (simp add: overlay_def)

text \<open>C27.  A command is carried to the trusted application and its answer back, byte for
  byte: with a library that works, a caller whose memory holds the length \<open>n\<close> and an APDU of \<open>n\<close>
  bytes makes the trusted application receive exactly that APDU under \<open>HAL_TRANSMIT\<close>, and finds its
  answer of \<open>m\<close> bytes after the length \<open>m\<close> in the response, the rest of which is untouched.\<close>

theorem command_delivered:
  assumes "tee_willing E" and "cmd = le_bytes n @ apdu @ rest" and "length apdu = unat n"
    and "cmdLen \<noteq> 0" and "rspLen \<noteq> 0"
    and "tee_invoke E (tee_ready n rspLen tr) HAL_TRANSMIT apdu rspLen = (0, ws, m)"
    and "length ws = unat m" and "unat m \<le> unat rspLen" and "4 + unat m \<le> length rsp"
  shows "ca_sendEseCommand E (Some cmd) cmdLen (Some rsp) rspLen tr =
    (Inr (0, Some (le_bytes m @ ws @ drop (4 + unat m) rsp)),
     tee_left HAL_TRANSMIT apdu rspLen 0 (tee_ready n rspLen tr))"
proof -
  have "cmd_len cmd = Inr n" using assms(2) by (simp add: cmd_len_def mem_read_def)
  moreover have "tApdu cmd n = Inr apdu" using assms(2,3) by (simp add: tApdu_def mem_read_def)
  moreover have "store_rsp rsp (overlay ws (replicate (unat rspLen) 0)) m =
      Inr (le_bytes m @ ws @ drop (4 + unat m) rsp)"
    using assms(7-9) overlay_all [of ws "unat rspLen" 0]
    by (simp add: store_rsp_def mem_write_def mem_read_def add.commute)
  ultimately show ?thesis
    using assms(4,5)
    by (simp add: ca_sendEseCommand_def exchange_willing [where inp = "tApdu cmd", OF assms(1) _ assms(6)])
qed

text \<open>A trusted application that answers every command with the status word \<open>9000\<close>.\<close>

definition echo_tee :: tee_env where
  "echo_tee = \<lparr>tee_init = (\<lambda>_ _. 0), tee_open = (\<lambda>_ _. 0), tee_alloc = (\<lambda>_ _ _. 0),
     tee_invoke = (\<lambda>_ _ _ _. (0, [0x90, 0x00], 2))\<rparr>"

lemma echo_tee_willing: "tee_willing echo_tee"
  by (simp add: tee_willing_def echo_tee_def)

lemma command_delivered_witness:
  "fst (ca_sendEseCommand echo_tee (Some [3, 0, 0, 0, 0x00, 0xA4, 0x04, 0xFF]) 8 (Some
     [0xEE, 0xEE, 0xEE, 0xEE, 0xEE, 0xEE, 0xEE, 0xEE]) 8 []) =
     Inr (0, Some [2, 0, 0, 0, 0x90, 0x00, 0xEE, 0xEE])"
  using command_delivered [OF echo_tee_willing, of "[3, 0, 0, 0, 0x00, 0xA4, 0x04, 0xFF]" 3 "[0x00, 0xA4, 0x04]"
      "[0xFF]" 8 8 "[]" "[0x90, 0x00]" 2
      "[0xEE, 0xEE, 0xEE, 0xEE, 0xEE, 0xEE, 0xEE, 0xEE]"]
  by (simp add: le_bytes_def echo_tee_def)

text \<open>C29.  The memory a command touches is not bounded by the lengths the caller gives:
  with a library that works, the call faults exactly when the length stored in the command is
  too large for its memory, or when the size the trusted application reports is too large for
  the shared block or for the response; \<open>cmdLen\<close> plays no part.\<close>

theorem command_faults_iff:
  assumes "tee_willing E" and "cmdLen \<noteq> 0" and "rspLen \<noteq> 0"
  shows "(\<exists>f tr'. ca_sendEseCommand E (Some cmd) cmdLen (Some rsp) rspLen tr = (Inl f, tr')) \<longleftrightarrow>
    length cmd < 4 + unat (le_word (take 4 cmd)) \<or> length cmd < 4 \<or>
    (let n = le_word (take 4 cmd);
         (r, ws, m) = tee_invoke E (tee_ready n rspLen tr) HAL_TRANSMIT (take (unat n) (drop 4 cmd)) rspLen
     in r = 0 \<and> (unat rspLen < unat m \<or> length rsp < 4 + unat m))"
proof (cases "4 \<le> length cmd \<and> 4 + unat (le_word (take 4 cmd)) \<le> length cmd")
  case False
  then have "cmd_len cmd = Inl OutOfBounds \<or>
      (\<exists>n. cmd_len cmd = Inr n \<and> tApdu cmd n = Inl OutOfBounds)"
    by (auto simp: cmd_len_def tApdu_def mem_read_def)
  then have "\<exists>tr'. ca_sendEseCommand E (Some cmd) cmdLen (Some rsp) rspLen tr = (Inl OutOfBounds, tr')"
    using assms(2,3) by (auto simp: ca_sendEseCommand_def intro!: exchange_willing_fault [OF assms(1)])
  with False show ?thesis by auto
next
  case True
  define n where "n = le_word (take 4 cmd)"
  obtain r ws m where inv: "tee_invoke E (tee_ready n rspLen tr) HAL_TRANSMIT (take (unat n) (drop 4 cmd)) rspLen = (r, ws, m)"
    using prod_cases3 by blast
  have "cmd_len cmd = Inr n" "tApdu cmd n = Inr (take (unat n) (drop 4 cmd))"
    using True by (simp_all add: cmd_len_def tApdu_def mem_read_def n_def)
  note ex = exchange_willing [where inp = "tApdu cmd", OF assms(1) this(2) inv]
  have "(\<exists>f. store_rsp rsp (overlay ws (replicate (unat rspLen) 0)) m = Inl f) \<longleftrightarrow>
      unat rspLen < unat m \<or> length rsp < 4 + unat m"
    by (auto simp: store_rsp_def mem_write_def mem_read_def)
  then show ?thesis
    using True assms(2,3) inv \<open>cmd_len cmd = Inr n\<close>
    by (auto simp: ca_sendEseCommand_def ex n_def [symmetric] split: sum.splits)
qed

lemma command_faults_iff_witness:
  "\<exists>f tr'. ca_sendEseCommand echo_tee (Some [100, 0, 0, 0, 0x00, 0xA4]) 6 (Some (replicate 8 0)) 8 [] = (Inl f, tr')"
  using command_faults_iff [OF echo_tee_willing, of 6 8 "[100, 0, 0, 0, 0x00, 0xA4]" "replicate 8 0" "[]"]
  by (simp add: le_word_def)

lemma ca_getEseCplc_answer:
  assumes "tee_willing E" and "len \<noteq> 0"
    and "tee_invoke E (tee_ready 5 len tr) HAL_TRANSMIT [0x80, 0xCA, 0x9F, 0x7F, 0x00] len = (r, ws, m)"
    and "r = 0 \<longrightarrow> length ws = unat m \<and> unat m \<le> unat len \<and> unat m \<le> length buf"
  shows "fst (ca_getEseCplc E (Some buf) (Some len) tr) =
    Inr (if r = 0 then (0, Some (ws @ drop (unat m) buf), Some m) else (- r, Some buf, Some len))"
proof -
  let ?inp = "\<lambda>n. mem_read getCplc_cmd 0 (unat (n :: u32))"
  have inp: "?inp 5 = Inr [0x80, 0xCA, 0x9F, 0x7F, 0x00]"
    by (simp add: mem_read_def getCplc_cmd_def)
  have five: "word_of_nat (length getCplc_cmd) = (5 :: u32)"
    by (simp add: getCplc_cmd_def)
  have "r = 0 \<Longrightarrow> store_cplc buf (overlay ws (replicate (unat len) 0)) m = Inr (Some (ws @ drop (unat m) buf), Some m)"
    using assms(4) overlay_all [of ws "unat len" 0]
    by (simp add: store_cplc_def mem_write_def mem_read_def)
  with assms(2) show ?thesis
    unfolding ca_getEseCplc_def five
    by (simp add: exchange_willing [where inp = ?inp, OF assms(1) inp assms(3)])
qed

lemma calls_clean_up_witness:
  "\<exists>x tr'. ca_getEseCplc echo_tee (Some [1, 2, 3, 4]) (Some 4) [] = (Inr x, tr') \<and> tee_replay tr' = Some tee_idle"
proof -
  have "\<exists>x. fst (ca_getEseCplc echo_tee (Some [1, 2, 3, 4]) (Some 4) []) = Inr x"
    using ca_getEseCplc_answer [OF echo_tee_willing, of 4 "[]" 0 "[0x90, 0]" 2 "[1, 2, 3, 4]"]
    by (simp add: echo_tee_def)
  then obtain x where "ca_getEseCplc echo_tee (Some [1, 2, 3, 4]) (Some 4) [] =
      (Inr x, snd (ca_getEseCplc echo_tee (Some [1, 2, 3, 4]) (Some 4) []))"
    by (metis prod.collapse)
  moreover from calls_clean_up [of "[]"] this
  have "tee_replay (snd (ca_getEseCplc echo_tee (Some [1, 2, 3, 4]) (Some 4) [])) = Some tee_idle"
    unfolding tee_replay.simps by blast
  ultimately show ?thesis by blast
qed

text \<open>The CPLC request: with a library that works, the trusted application receives the
  command \<open>80 CA 9F 7F 00\<close>; if it answers \<open>m\<close> bytes that fit, the caller's buffer starts with
  them and its length becomes \<open>m\<close>; if it fails with \<open>r\<close>, the caller's memory is untouched and
  the value returned is \<open>- r\<close>.\<close>

lemma cplc_exchange:
  assumes "tee_willing E" and "len \<noteq> 0"
    and "tee_invoke E (tee_ready 5 len tr) HAL_TRANSMIT [0x80, 0xCA, 0x9F, 0x7F, 0x00] len = (r, ws, m)"
    and "r = 0 \<longrightarrow> length ws = unat m \<and> unat m \<le> unat len \<and> unat m \<le> length buf"
  shows "fst (ca_getEseCplc E (Some buf) (Some len) tr) =
    Inr (if r = 0 then (0, Some (ws @ drop (unat m) buf), Some m) else (- r, Some buf, Some len))"
  using ca_getEseCplc_answer [OF assms] .

lemma cplc_exchange_witness:
  "fst (ca_getEseCplc echo_tee (Some [1, 2, 3, 4]) (Some 4) []) = Inr (0, Some [0x90, 0, 3, 4], Some 2)"
  using cplc_exchange [OF echo_tee_willing, of 4 "[]" 0 "[0x90, 0]" 2 "[1, 2, 3, 4]"]
  by (simp add: echo_tee_def)

end
