(* ===== verification/ManagerService.thy ===== *)
theory ManagerService
  imports Callers TeeClient
begin

text \<open>
  \<open>eseManagerServiceDaemon/eseManagerService.cpp\<close>: the manager service that gives the system
  access to the secure element through the TEE and to the binding operations of the
  fingerprint library.  The library's three functions are parameters, answered from the log
  of their calls.
\<close>

subsection \<open>State and environment\<close>

datatype fp_event = FpStatus i32 | FpStart i32 | FpClear "u8 list option" u32 i32

record ems_env =
  ems_tee :: tee_env
  fp_geteSEBindingStatus :: "fp_event list \<Rightarrow> i32"
  fp_startBinding :: "fp_event list \<Rightarrow> i32"
  fp_clearBindingInfo :: "fp_event list \<Rightarrow> u8 list option \<Rightarrow> u32 \<Rightarrow> i32"

record ems =
  myParam :: i32
  tee_log :: "tee_event list"
  fp_log :: "fp_event list"

definition ems_init :: ems where
  "ems_init = \<lparr>myParam = 0, tee_log = [], fp_log = []\<rparr>"

subsection \<open>The fingerprint library\<close>

definition START_BINDING :: u32 where "START_BINDING = 1094"
definition CLEAR_BINDING_INFO :: u32 where "CLEAR_BINDING_INFO = 1095"
definition GET_ESE_BINDDING_STATUS :: u32 where "GET_ESE_BINDDING_STATUS = 1096"

definition ems_geteSEBindingStatus :: "ems_env \<Rightarrow> ems \<Rightarrow> i32 \<times> ems" where
  "ems_geteSEBindingStatus E s = (let status = fp_geteSEBindingStatus E (fp_log s)
     in (status, s\<lparr>fp_log := FpStatus status # fp_log s\<rparr>))"

definition startBinding :: "ems_env \<Rightarrow> ems \<Rightarrow> i32 \<times> ems" where
  "startBinding E s = (let status = fp_startBinding E (fp_log s)
     in (status, s\<lparr>fp_log := FpStart status # fp_log s\<rparr>))"

definition clearBindingInfo :: "ems_env \<Rightarrow> u8 list option \<Rightarrow> u32 \<Rightarrow> ems \<Rightarrow> i32 \<times> ems" where
  "clearBindingInfo E verify_data len s = (let status = fp_clearBindingInfo E (fp_log s) verify_data len
     in (status, s\<lparr>fp_log := FpClear verify_data len status # fp_log s\<rparr>))"

subsection \<open>Operations\<close>

text \<open>The sum in \<open>setSomething\<close> is that of 32-bit words: it wraps.\<close>

definition setSomething :: "i32 \<Rightarrow> ems \<Rightarrow> i32 \<times> ems" where
  "setSomething a s = (0, s\<lparr>myParam := myParam s + a\<rparr>)"

definition getSomething :: "ems \<Rightarrow> i32 \<times> ems" where
  "getSomething s = (myParam s, s)"

definition sendCommand :: "ems_env \<Rightarrow> caller \<Rightarrow> u8 list option \<Rightarrow> u32 \<Rightarrow> u8 list option \<Rightarrow> u32 \<Rightarrow>
    ems \<Rightarrow> (i32 \<times> u8 list option) outcome \<times> ems" where
  "sendCommand E c cmd cmdLen rsp rspLen s =
     (if bad_system_uid (calling_uid c) then (Inr (PERMISSION_DENIED, rsp), s)
      else let (res, tr) = ca_sendEseCommand (ems_tee E) cmd cmdLen rsp rspLen (tee_log s);
               s = s\<lparr>tee_log := tr\<rparr>
        in case res of Inl f \<Rightarrow> (Inl f, s)
          | Inr (ret, rsp) \<Rightarrow> (Inr (if is_neg ret then ret else NO_ERROR, rsp), s))"

definition sendCommandEx :: "ems_env \<Rightarrow> caller \<Rightarrow> u32 \<Rightarrow> u8 list option \<Rightarrow> u32 \<Rightarrow> ems \<Rightarrow> i32 \<times> ems" where
  "sendCommandEx E c cmd_id buffer len s =
     (if bad_uid (calling_uid c) then (PERMISSION_DENIED, s)
      else if cmd_id = GET_ESE_BINDDING_STATUS then ems_geteSEBindingStatus E s
      else if cmd_id = START_BINDING then startBinding E s
      else if cmd_id = CLEAR_BINDING_INFO then clearBindingInfo E buffer len s
      else (UNKNOWN_ERROR, s))"

text \<open>\<open>getEseCplc\<close> checks no uid.\<close>

definition getEseCplc :: "ems_env \<Rightarrow> u8 list option \<Rightarrow> u32 option \<Rightarrow> ems \<Rightarrow>
    (i32 \<times> u8 list option \<times> u32 option) outcome \<times> ems" where
  "getEseCplc E cplc_buf cplc_len s =
     (if cplc_buf = None \<or> cplc_len = None \<or> cplc_len = Some 0 then (Inr (BAD_VALUE, cplc_buf, cplc_len), s)
      else let (res, tr) = ca_getEseCplc (ems_tee E) cplc_buf cplc_len (tee_log s);
               s = s\<lparr>tee_log := tr\<rparr>
        in case res of Inl f \<Rightarrow> (Inl f, s)
          | Inr (ret, out) \<Rightarrow> (Inr (if is_neg ret then ret else NO_ERROR, out), s))"

subsection \<open>Steps\<close>

text \<open>The requests the service can get, and the states it goes through while it does not fault.\<close>

datatype ems_request =
    SetSomething i32
  | GetSomething
  | SendCommand caller "u8 list option" u32 "u8 list option" u32
  | SendCommandEx caller u32 "u8 list option" u32
  | GetEseCplc "u8 list option" "u32 option"

inductive ems_step :: "ems_env \<Rightarrow> ems \<Rightarrow> ems_request \<Rightarrow> ems \<Rightarrow> bool" for E where
  set_: "setSomething a s = (r, s') \<Longrightarrow> ems_step E s (SetSomething a) s'"
| get_: "getSomething s = (r, s') \<Longrightarrow> ems_step E s GetSomething s'"
| send: "sendCommand E c cmd n rsp m s = (Inr x, s') \<Longrightarrow> ems_step E s (SendCommand c cmd n rsp m) s'"
| send_ex: "sendCommandEx E c k b n s = (r, s') \<Longrightarrow> ems_step E s (SendCommandEx c k b n) s'"
| cplc: "getEseCplc E b l s = (Inr x, s') \<Longrightarrow> ems_step E s (GetEseCplc b l) s'"

inductive_cases ems_stepE: "ems_step E s r s'"

inductive ems_run :: "ems_env \<Rightarrow> ems \<Rightarrow> ems_request list \<Rightarrow> ems \<Rightarrow> bool" for E where
  nil: "ems_run E s [] s"
| cons: "ems_step E s r s1 \<Longrightarrow> ems_run E s1 rs s' \<Longrightarrow> ems_run E s (r # rs) s'"

fun set_sum :: "ems_request list \<Rightarrow> i32" where
  "set_sum [] = 0"
| "set_sum (SetSomething a # rs) = a + set_sum rs"
| "set_sum (_ # rs) = set_sum rs"

lemma sendCommand_frame:
  assumes "sendCommand E c cmd n rsp m s = (Inr x, s')"
  shows "myParam s' = myParam s \<and> fp_log s' = fp_log s \<and>
    (tee_replay (tee_log s) = Some tee_idle \<longrightarrow> tee_replay (tee_log s') = Some tee_idle)"
  using assms send_command.leaves_idle
  by (auto simp: sendCommand_def Let_def split: if_splits prod.splits sum.splits)

lemma getEseCplc_frame:
  assumes "getEseCplc E b l s = (Inr x, s')"
  shows "myParam s' = myParam s \<and> fp_log s' = fp_log s \<and>
    (tee_replay (tee_log s) = Some tee_idle \<longrightarrow> tee_replay (tee_log s') = Some tee_idle)"
  using assms get_cplc.leaves_idle
  by (auto simp: getEseCplc_def Let_def split: if_splits prod.splits sum.splits)

lemma sendCommandEx_frame:
  "myParam (snd (sendCommandEx E c k b n s)) = myParam s \<and>
   tee_log (snd (sendCommandEx E c k b n s)) = tee_log s"
  by (simp add: sendCommandEx_def ems_geteSEBindingStatus_def startBinding_def clearBindingInfo_def Let_def)

lemma step_frame:
  assumes "ems_step E s r s'"
  shows "myParam s' = myParam s + set_sum [r] \<and>
    (tee_replay (tee_log s) = Some tee_idle \<longrightarrow> tee_replay (tee_log s') = Some tee_idle)"
  using assms
proof cases
  case (send_ex c k b n r)
  with sendCommandEx_frame [of E c k b n s] show ?thesis by simp
qed (auto simp: setSomething_def getSomething_def dest: sendCommand_frame getEseCplc_frame)

lemma set_sum_Cons: "set_sum (r # rs) = set_sum [r] + set_sum rs"
  by (cases r) simp_all

text \<open>Over any sequence of requests the service survives, it keeps the books: nothing
  of the TEE library stays open between requests, and its parameter is the sum (of 32-bit
  words) of the values it was given.\<close>

lemma service_invariant:
  assumes "ems_run E s rs s'" and "tee_replay (tee_log s) = Some tee_idle"
  shows "tee_replay (tee_log s') = Some tee_idle \<and> getSomething s' = (myParam s + set_sum rs, s')"
  using assms
proof (induction rule: ems_run.induct)
  case (nil s)
  then show ?case by (simp add: getSomething_def)
next
  case (cons s r s1 rs s')
  from step_frame [OF cons(1)] cons show ?case
    by (subst set_sum_Cons) (simp add: getSomething_def algebra_simps)
qed

lemma service_invariant_witness:
  "getSomething (ems_init\<lparr>myParam := 12\<rparr>) = (12, ems_init\<lparr>myParam := 12\<rparr>)"
proof -
  have "ems_step E ems_init (SetSomething 5) (ems_init\<lparr>myParam := 5\<rparr>)"
    "ems_step E (ems_init\<lparr>myParam := 5\<rparr>) (SetSomething 7) (ems_init\<lparr>myParam := 12\<rparr>)" for E
    by (rule ems_step.set_ [where r = 0], simp add: setSomething_def ems_init_def)+
  from ems_run.cons [OF this(1) ems_run.cons [OF this(2) ems_run.nil]]
  have "ems_run E ems_init [SetSomething 5, SetSomething 7] (ems_init\<lparr>myParam := 12\<rparr>)" for E .
  from service_invariant [OF this] show ?thesis by (simp add: ems_init_def)
qed

text \<open>A TEE whose every invocation fails with a communication error.\<close>

definition failing_tee :: tee_env where
  "failing_tee = echo_tee\<lparr>tee_invoke := \<lambda>_ _ _ _. (teec_value TEEC_ERROR_COMMUNICATION, [], 0)\<rparr>"

definition failing_ems :: ems_env where
  "failing_ems = \<lparr>ems_tee = failing_tee, fp_geteSEBindingStatus = \<lambda>_. 0, fp_startBinding = \<lambda>_. 0,
     fp_clearBindingInfo = \<lambda>_ _ _. 0\<rparr>"

definition working_ems :: ems_env where
  "working_ems = failing_ems\<lparr>ems_tee := echo_tee\<rparr>"

definition system_caller :: caller where
  "system_caller = \<lparr>calling_uid = 1000, calling_pid = 7\<rparr>"

lemma system_caller_uid [simp]: "\<not> bad_system_uid (calling_uid system_caller)"
  by (simp add: system_caller_def bad_system_uid_def c_rem_def SYSTEM_UID_def)

lemma working_send:
  "\<exists>s'. sendCommand working_ems system_caller (Some [3, 0, 0, 0, 0, 0xA4, 4]) 7 (Some [0, 0, 0, 0, 0, 0]) 6 ems_init =
     (Inr (NO_ERROR, Some [2, 0, 0, 0, 0x90, 0]), s')"
proof -
  have l: "cmd_len [3, 0, 0, 0, 0, 0xA4, 4] = Inr 3" "tApdu [3, 0, 0, 0, 0, 0xA4, 4] 3 = Inr [0, 0xA4, 4]"
    by (simp_all add: cmd_len_def tApdu_def mem_read_def le_word_def)
  have "tee_invoke echo_tee (tee_ready 3 6 []) HAL_TRANSMIT [0, 0xA4, 4] 6 = (0, [0x90, 0], 2)"
    by (simp add: echo_tee_def)
  note ex = exchange_willing [where inp = "tApdu [3, 0, 0, 0, 0, 0xA4, 4]", OF echo_tee_willing l(2) this]
  have "store_rsp [0, 0, 0, 0, 0, 0] (overlay [0x90, 0] (replicate (unat (6 :: u32)) 0)) 2 = Inr [2, 0, 0, 0, 0x90, 0]"
    by (simp add: store_rsp_def mem_write_def mem_read_def le_bytes_def overlay_def)
  then show ?thesis
    by (simp add: sendCommand_def ca_sendEseCommand_def working_ems_def failing_ems_def ems_init_def l ex)
qed

subsection \<open>Who may do what\<close>

text \<open>Raw commands are for system and root only: any other caller, the radio process
  included, gets \<open>PERMISSION_DENIED\<close>, and neither the TEE nor its own response buffer is touched.\<close>

lemma raw_command_privileged:
  assumes "sint (calling_uid c) mod 100000 \<notin> {0, 1000}" and "0 \<le> sint (calling_uid c)"
  shows "sendCommand E c cmd cmdLen rsp rspLen s = (Inr (PERMISSION_DENIED, rsp), s)"
  using assms(1)
  by (simp add: sendCommand_def bad_system_uid_def user_part [OF assms(2)] SYSTEM_UID_def ROOT_UID_def Let_def)

lemma raw_command_privileged_witness:
  "sendCommand failing_ems \<lparr>calling_uid = 1001, calling_pid = 7\<rparr> (Some [1]) 1 (Some [0]) 1 ems_init =
     (Inr (PERMISSION_DENIED, Some [0]), ems_init)"
  by (rule raw_command_privileged) simp_all

text \<open>A binding command makes at most one call of the fingerprint library, and makes it
  exactly when the caller is root, system or radio and the command is one of the three; otherwise
  it returns an error and changes nothing.\<close>

lemma binding_command_gate:
  "(if \<not> bad_uid (calling_uid c) \<and> k \<in> {START_BINDING, CLEAR_BINDING_INFO, GET_ESE_BINDDING_STATUS}
    then length (fp_log (snd (sendCommandEx E c k b n s))) = Suc (length (fp_log s)) \<and>
      tl (fp_log (snd (sendCommandEx E c k b n s))) = fp_log s
    else is_neg (fst (sendCommandEx E c k b n s)) \<and> snd (sendCommandEx E c k b n s) = s)"
  by (simp add: sendCommandEx_def ems_geteSEBindingStatus_def startBinding_def clearBindingInfo_def Let_def)

subsection \<open>Errors of the trusted application\<close>

text \<open>When the trusted application (or the TEE) fails with a GlobalPlatform error, the
  service reports success: a raw command and a CPLC request both return \<open>NO_ERROR\<close> with the
  caller's buffer as it was.\<close>

lemma service_swallows_tee_errors:
  assumes "tee_willing (ems_tee E)" and "0xFFFF0000 \<le> r"
    and "cmd_len cmd = Inr n" and "tApdu cmd n = Inr apdu" and "cmdLen \<noteq> 0" and "rspLen \<noteq> 0"
    and "\<not> bad_system_uid (calling_uid c)"
    and "\<And>tr inp out. fst (tee_invoke (ems_tee E) tr HAL_TRANSMIT inp out) = r"
  shows "fst (sendCommand E c (Some cmd) cmdLen (Some rsp) rspLen s) = Inr (NO_ERROR, Some rsp) \<and>
    (len \<noteq> 0 \<longrightarrow> fst (getEseCplc E (Some buf) (Some len) s) = Inr (NO_ERROR, Some buf, Some len))"
proof -
  have r: "r \<noteq> 0" "\<not> is_neg (- r)"
    using assms(2) is_neg_minus [of r] by (auto simp: word_le_def)
  obtain ws m where send: "tee_invoke (ems_tee E) (tee_ready n rspLen (tee_log s)) HAL_TRANSMIT apdu rspLen = (r, ws, m)"
    using assms(8) by (metis prod.collapse)
  obtain ws' m' where get: "tee_invoke (ems_tee E) (tee_ready 5 len (tee_log s)) HAL_TRANSMIT
      [0x80, 0xCA, 0x9F, 0x7F, 0x00] len = (r, ws', m')"
    using assms(8) by (metis prod.collapse)
  have "fst (ca_sendEseCommand (ems_tee E) (Some cmd) cmdLen (Some rsp) rspLen (tee_log s)) = Inr (- r, Some rsp)"
    using assms(3,5,6) r(1)
    by (simp add: ca_sendEseCommand_def exchange_willing [where inp = "tApdu cmd", OF assms(1,4) send])
  moreover have "len \<noteq> 0 \<Longrightarrow> fst (ca_getEseCplc (ems_tee E) (Some buf) (Some len) (tee_log s)) = Inr (- r, Some buf, Some len)"
    using ca_getEseCplc_answer [OF assms(1) _ get, of buf] r(1) by simp
  ultimately show ?thesis
    using assms(7) r by (simp add: sendCommand_def getEseCplc_def split_beta)
qed

lemma service_swallows_tee_errors_witness:
  "fst (getEseCplc failing_ems (Some (replicate 100 0)) (Some 100) ems_init) =
     Inr (NO_ERROR, Some (replicate 100 0), Some 100)"
  using service_swallows_tee_errors [of failing_ems "0xFFFF000E" "[1, 0, 0, 0, 0x80]" 1 "[0x80]" 5 1
      system_caller "[0]" ems_init 100 "replicate 100 0"]
  by (simp add: failing_ems_def failing_tee_def echo_tee_def tee_willing_def cmd_len_def tApdu_def
      mem_read_def le_word_def word_le_nat_alt)

end
