(* ===== verification/ManagerBinder.thy ===== *)
theory ManagerBinder
  imports ManagerService Parcel
begin

text \<open>
  The remote interface of the manager service, \<open>IeseManagerService.cpp\<close>: the codes, the
  server stub \<open>BneseManagerService::onTransact\<close> and the proxy \<open>BpeseManagerService\<close>.  The stub
  works in the memory of the parcels, so it can fault.  A raw command is followed to the service, a
  CPLC request to the trusted application and back.
\<close>

subsection \<open>Codes\<close>

definition SET_SOMETHING :: u32 where "SET_SOMETHING = FIRST_CALL_TRANSACTION"
definition GET_SOMETHING :: u32 where "GET_SOMETHING = SET_SOMETHING + 1"
definition CMD_SEND_COMMAND :: u32 where "CMD_SEND_COMMAND = GET_SOMETHING + 1"
definition CMD_SEND_COMMAND_EX :: u32 where "CMD_SEND_COMMAND_EX = CMD_SEND_COMMAND + 1"
definition CMD_GETCPLC :: u32 where "CMD_GETCPLC = CMD_SEND_COMMAND_EX + 1"

lemmas ems_codes = SET_SOMETHING_def GET_SOMETHING_def CMD_SEND_COMMAND_def CMD_SEND_COMMAND_EX_def
  CMD_GETCPLC_def FIRST_CALL_TRANSACTION_def

definition ems_descriptor :: string where "ems_descriptor = ''android.hardware.IeseManagerService''"

subsection \<open>Server stub\<close>

definition UINT32_MAX :: u32 where "UINT32_MAX = 0xFFFFFFFF"

text \<open>The case \<open>CMD_SEND_COMMAND\<close>, after the interface check: \<open>data\<close> is at the two lengths.\<close>

definition on_send_command :: "'p parcel_api \<Rightarrow> ems_env \<Rightarrow> caller \<Rightarrow> 'p \<Rightarrow> 'p \<Rightarrow> ems \<Rightarrow>
    (i32 \<times> 'p) outcome \<times> ems" where
  "on_send_command P E c data reply s =
     (let (cmdLen, data) = read_int32 P data; (rspLen, data) = read_int32 P data in
      if UINT32_MAX - cmdLen < rspLen then (Inr (BAD_VALUE, reply), s)
      else if cmdLen = 0 \<or> rspLen = 0 then (Inr (BAD_VALUE, reply), s)
      else let (cmd, data) = read_inplace P (unat cmdLen) data in
        case write_inplace P (unat rspLen) reply of None \<Rightarrow> (Inl NullDeref, s)
        | Some fill \<Rightarrow>
          (case sendCommand E c cmd cmdLen (Some (replicate (unat rspLen) 0)) rspLen s of
             (Inl f, s) \<Rightarrow> (Inl f, s)
           | (Inr (ret, rsp), s) \<Rightarrow> (Inr (ret, fill (the rsp)), s)))"

text \<open>The case \<open>CMD_GETCPLC\<close>; the length goes after the buffer, and only on success.\<close>

definition on_get_cplc :: "'p parcel_api \<Rightarrow> ems_env \<Rightarrow> 'p \<Rightarrow> 'p \<Rightarrow> ems \<Rightarrow>
    (i32 \<times> 'p) outcome \<times> ems" where
  "on_get_cplc P E data reply s =
     (let (cplc_len, data) = read_int32 P data in
      if cplc_len = 0 then (Inr (BAD_VALUE, reply), s)
      else case write_inplace P (unat cplc_len) reply of None \<Rightarrow> (Inl NullDeref, s)
        | Some fill \<Rightarrow>
          (case getEseCplc E (Some (replicate (unat cplc_len) 0)) (Some cplc_len) s of
             (Inl f, s) \<Rightarrow> (Inl f, s)
           | (Inr (ret, buf, len), s) \<Rightarrow>
              (let reply = fill (the buf) in
               (Inr (ret, if ret = NO_ERROR then snd (write_int32 P (the len) reply) else reply), s))))"

definition Bnems_onTransact :: "'p parcel_api \<Rightarrow> (u32 \<Rightarrow> 'p \<Rightarrow> 'p \<Rightarrow> i32 \<times> 'p) \<Rightarrow> ems_env \<Rightarrow>
    caller \<Rightarrow> ('p, ems) fhandler" where
  "Bnems_onTransact P B E c code data reply s =
     (if code \<in> {SET_SOMETHING, GET_SOMETHING, CMD_SEND_COMMAND, CMD_SEND_COMMAND_EX, CMD_GETCPLC} then
        let (ok, data) = check_interface P ems_descriptor data in
        if \<not> ok then (Inr (PERMISSION_DENIED, reply), s)
        else if code = SET_SOMETHING then
          let (a, data) = read_int32 P data; (r, s) = setSomething a s in (Inr (write_int32 P r reply), s)
        else if code = GET_SOMETHING then
          let (r, s) = getSomething s in (Inr (write_int32 P r reply), s)
        else if code = CMD_SEND_COMMAND then on_send_command P E c data reply s
        else if code = CMD_SEND_COMMAND_EX then
          let (cmd_id, data) = read_int32 P data; (buffer_len, data) = read_int32 P data;
              (buffer, data) = read_inplace P (unat buffer_len) data;
              (status, s) = sendCommandEx E c cmd_id buffer buffer_len s
          in (Inr (write_int32 P status reply), s)
        else on_get_cplc P E data reply s
      else (Inr (B code data reply), s))"

subsection \<open>Proxy\<close>

definition ems_data :: "'p parcel_api \<Rightarrow> 'p" where
  "ems_data P = write_token P ems_descriptor (new_parcel P)"

definition put_int32 :: "'p parcel_api \<Rightarrow> u32 \<Rightarrow> 'p \<Rightarrow> 'p" where
  "put_int32 P w p = snd (write_int32 P w p)"

text \<open>\<open>data.write(p, n)\<close>: reads \<open>n\<close> bytes of the caller's memory.\<close>

definition put_memory :: "'p parcel_api \<Rightarrow> u8 list option \<Rightarrow> nat \<Rightarrow> 'p \<Rightarrow> 'p outcome" where
  "put_memory P mem n p = (case mem of
     None \<Rightarrow> if n = 0 then Inr (write_bytes P [] p) else Inl NullDeref
   | Some bs \<Rightarrow> map_sum id (\<lambda>xs. write_bytes P xs p) (mem_read bs 0 n))"

definition Bpems_setSomething :: "'p parcel_api \<Rightarrow> ('p, 's) remote \<Rightarrow> i32 \<Rightarrow> 's \<Rightarrow> i32 \<times> 's" where
  "Bpems_setSomething P T a s =
     (let ((st, reply), s) = T SET_SOMETHING (put_int32 P a (ems_data P)) s in (fst (read_int32 P reply), s))"

definition Bpems_getSomething :: "'p parcel_api \<Rightarrow> ('p, 's) remote \<Rightarrow> 's \<Rightarrow> i32 \<times> 's" where
  "Bpems_getSomething P T s =
     (let ((st, reply), s) = T GET_SOMETHING (ems_data P) s in (fst (read_int32 P reply), s))"

definition Bpems_sendCommand :: "'p parcel_api \<Rightarrow> ('p, 's) remote \<Rightarrow> u8 list option \<Rightarrow> u32 \<Rightarrow>
    u8 list option \<Rightarrow> u32 \<Rightarrow> 's \<Rightarrow> (i32 \<times> u8 list option) outcome \<times> 's" where
  "Bpems_sendCommand P T cmd cmdLen rsp rspLen s =
     (case rsp of None \<Rightarrow> (Inr (BAD_VALUE, rsp), s)
      | Some r \<Rightarrow>
        if cmd = None \<or> cmdLen = 0 \<or> rspLen = 0 then (Inr (BAD_VALUE, rsp), s)
        else case put_memory P cmd (unat cmdLen) (put_int32 P rspLen (put_int32 P cmdLen (ems_data P))) of
          Inl f \<Rightarrow> (Inl f, s)
        | Inr data \<Rightarrow>
          (let ((rv, reply), s) = T CMD_SEND_COMMAND data s in
           if rv \<noteq> NO_ERROR then (Inr (rv, rsp), s)
           else case fst (read_inplace P (unat rspLen) reply) of None \<Rightarrow> (Inl NullDeref, s)
             | Some bs \<Rightarrow> (map_sum id (\<lambda>r. (rv, Some r)) (mem_write r 0 bs), s)))"

definition Bpems_sendCommandEx :: "'p parcel_api \<Rightarrow> ('p, 's) remote \<Rightarrow> u32 \<Rightarrow> u8 list option \<Rightarrow> u32 \<Rightarrow>
    's \<Rightarrow> i32 outcome \<times> 's" where
  "Bpems_sendCommandEx P T cmd_id buffer len s =
     (case put_memory P buffer (unat len) (put_int32 P len (put_int32 P cmd_id (ems_data P))) of
        Inl f \<Rightarrow> (Inl f, s)
      | Inr data \<Rightarrow>
        (let ((rv, reply), s) = T CMD_SEND_COMMAND_EX data s in
         if rv \<noteq> NO_ERROR then (Inr rv, s) else (Inr (fst (read_int32 P reply)), s)))"

text \<open>The log line at the start dereferences \<open>cplc_len\<close> before it is tested.\<close>

definition Bpems_getEseCplc :: "'p parcel_api \<Rightarrow> ('p, 's) remote \<Rightarrow> u8 list option \<Rightarrow> u32 option \<Rightarrow>
    's \<Rightarrow> (i32 \<times> u8 list option \<times> u32 option) outcome \<times> 's" where
  "Bpems_getEseCplc P T cplc_buf cplc_len s =
     (case cplc_len of None \<Rightarrow> (Inl NullDeref, s)
      | Some len \<Rightarrow>
        (case cplc_buf of None \<Rightarrow> (Inr (BAD_VALUE, cplc_buf, cplc_len), s)
         | Some buf \<Rightarrow>
            if len = 0 then (Inr (BAD_VALUE, cplc_buf, cplc_len), s)
            else case mem_write buf 0 (replicate (unat len) 0) of Inl f \<Rightarrow> (Inl f, s)
            | Inr buf \<Rightarrow>
              (let ((ret, reply), s) = T CMD_GETCPLC (put_int32 P len (ems_data P)) s in
               if ret \<noteq> NO_ERROR then (Inr (ret, Some buf, Some len), s)
               else let ((ret, bs), reply) = read_bytes P (unat len) reply in
                 if ret \<noteq> NO_ERROR then (Inr (ret, Some buf, Some len), s)
                 else case mem_write buf 0 bs of Inl f \<Rightarrow> (Inl f, s)
                   | Inr buf \<Rightarrow> (Inr (NO_ERROR, Some buf, Some (fst (read_int32 P reply))), s))))"

subsection \<open>The length guard\<close>

lemma guard_iff: "UINT32_MAX - a < b \<longleftrightarrow> 2 ^ 32 \<le> unat a + unat b"
proof -
  have lt: "unat a < 2 ^ 32" using unsigned_less [of a] by simp
  then have "unat (UINT32_MAX - a) = 2 ^ 32 - 1 - unat a"
    by (subst unat_sub) (simp_all add: UINT32_MAX_def word_le_nat_alt)
  with lt show ?thesis by (auto simp: word_less_nat_alt)
qed

text \<open>The stub's test for an overflow is exact: it refuses a pair of lengths precisely
  when their sum does not fit in 32 bits, and then the service is not called.\<close>

lemma length_guard:
  assumes "parcel_fifo P items" and "items data = [Token ems_descriptor, Int32 cmdLen, Int32 rspLen] @ xs"
    and "2 ^ 32 \<le> unat cmdLen + unat rspLen \<or> cmdLen = 0 \<or> rspLen = 0"
  shows "Bnems_onTransact P B E c CMD_SEND_COMMAND data reply s = (Inr (BAD_VALUE, reply), s)"
  using assms(2,3)
  by (auto simp: Bnems_onTransact_def on_send_command_def ems_codes guard_iff split_beta fifo [OF assms(1)])

lemma length_guard_witness:
  "Bnems_onTransact list_parcel base_unknown failing_ems \<lparr>calling_uid = 0, calling_pid = 1\<rparr>
     CMD_SEND_COMMAND [Token ems_descriptor, Int32 0xFFFFFFFF, Int32 8, Bytes []] [] ems_init =
     (Inr (BAD_VALUE, []), ems_init)"
  using length_guard [OF list_parcel_fifo, of _ "0xFFFFFFFF" 8 "[Bytes []]"] by simp

subsection \<open>The proxy against the stub\<close>

lemma ems_data_items: "parcel_fifo P items \<Longrightarrow> items (put_int32 P w p) = items p @ [Int32 w]"
  "parcel_fifo P items \<Longrightarrow> items (ems_data P) = [Token ems_descriptor]"
  by (simp_all add: put_int32_def ems_data_def fifo)

lemma put_memory_items:
  assumes "parcel_fifo P items" and "n \<le> length bs"
  shows "\<exists>d. put_memory P (Some bs) n p = Inr d \<and> items d = items p @ [Bytes (take n bs)]"
  using assms by (simp add: put_memory_def mem_read_def fifo)

lemma Bpems_transparent:
  assumes "parcel_fifo P items" and "delivers P items (served (Bnems_onTransact P B E c)) T"
    and "length buf = unat len"
  shows "Bpems_sendCommandEx P T k (Some buf) len s =
      (case sendCommandEx E c k (Some buf) len s of (r, s') \<Rightarrow> (Inr r, s')) \<and>
    Bpems_setSomething P T a s = setSomething a s \<and> Bpems_getSomething P T s = getSomething s"
proof (intro conjI)
  note F = fifo [OF assms(1)] ems_data_items [OF assms(1)] and stub = Bnems_onTransact_def ems_codes split_beta
  note call = transact_served [OF assms(2)]
  obtain d where d: "put_memory P (Some buf) (unat len) (put_int32 P len (put_int32 P k (ems_data P))) = Inr d"
    "items d = [Token ems_descriptor, Int32 k, Int32 len, Bytes buf]"
    using put_memory_items [OF assms(1), of "unat len" buf "put_int32 P len (put_int32 P k (ems_data P))"] assms(3)
    by (auto simp: F)
  obtain reply where "T CMD_SEND_COMMAND_EX d s = ((NO_ERROR, reply), snd (sendCommandEx E c k (Some buf) len s))"
    "items reply = [Int32 (fst (sendCommandEx E c k (Some buf) len s))]"
    using call [of d CMD_SEND_COMMAND_EX s NO_ERROR "snd (sendCommandEx E c k (Some buf) len s)"
        "[Int32 (fst (sendCommandEx E c k (Some buf) len s))]"] d(2) assms(3)
    by (auto simp: stub F prod_eq_iff)
  then show "Bpems_sendCommandEx P T k (Some buf) len s =
      (case sendCommandEx E c k (Some buf) len s of (r, s') \<Rightarrow> (Inr r, s'))"
    using d(1) by (simp add: Bpems_sendCommandEx_def split_beta F)
  obtain reply where "T SET_SOMETHING (put_int32 P a (ems_data P)) s = ((NO_ERROR, reply), snd (setSomething a s))"
    "items reply = [Int32 (fst (setSomething a s))]"
    using call [of "put_int32 P a (ems_data P)" SET_SOMETHING s NO_ERROR "snd (setSomething a s)"
        "[Int32 (fst (setSomething a s))]"]
    by (auto simp: stub F prod_eq_iff)
  then show "Bpems_setSomething P T a s = setSomething a s"
    by (simp add: Bpems_setSomething_def split_beta F)
  obtain reply where "T GET_SOMETHING (ems_data P) s = ((NO_ERROR, reply), snd (getSomething s))"
    "items reply = [Int32 (fst (getSomething s))]"
    using call [of "ems_data P" GET_SOMETHING s NO_ERROR "snd (getSomething s)" "[Int32 (fst (getSomething s))]"]
    by (auto simp: stub F prod_eq_iff)
  then show "Bpems_getSomething P T s = getSomething s"
    by (simp add: Bpems_getSomething_def split_beta F)
qed

lemma Bpems_sendCommandEx_null: "Bpems_sendCommandEx P T k None 0 = Bpems_sendCommandEx P T k (Some []) 0"
  by (simp add: fun_eq_iff Bpems_sendCommandEx_def put_memory_def mem_read_def)

text \<open>The binding commands and the parameter are transparent to the proxy: a remote
  call with \<open>len\<close> bytes returns and does what the service does with those bytes.\<close>

lemma remote_binding_command:
  assumes "parcel_fifo P items" and "delivers P items (served (Bnems_onTransact P B E c)) T"
    and "length buf = unat len"
  shows "Bpems_sendCommandEx P T k (Some buf) len s =
      (case sendCommandEx E c k (Some buf) len s of (r, s') \<Rightarrow> (Inr r, s')) \<and>
    Bpems_setSomething P T a s = setSomething a s \<and> Bpems_getSomething P T s = getSomething s"
  using Bpems_transparent [OF assms] .

lemma remote_binding_command_witness:
  "Bpems_sendCommandEx list_parcel
     (loopback list_parcel (served (Bnems_onTransact list_parcel base_unknown failing_ems \<lparr>calling_uid = 0, calling_pid = 1\<rparr>)))
     CLEAR_BINDING_INFO (Some [1, 2]) 2 ems_init = (Inr 0, ems_init\<lparr>fp_log := [FpClear (Some [1, 2]) 2 0]\<rparr>)"
  using remote_binding_command [OF list_parcel_fifo loopback_delivers, where B = base_unknown and E = failing_ems
      and c = "\<lparr>calling_uid = 0, calling_pid = 1\<rparr>" and buf = "[1, 2]" and len = 2 and k = CLEAR_BINDING_INFO
      and s = ems_init and a = 0]
  by (simp add: sendCommandEx_def bad_uid_def c_rem_def SYSTEM_UID_def ROOT_UID_def clearBindingInfo_def
      failing_ems_def ems_init_def CLEAR_BINDING_INFO_def START_BINDING_def GET_ESE_BINDDING_STATUS_def)

text \<open>Both TEE operations keep the length of the caller's buffers.\<close>

lemma exchange_mem:
  assumes "ca_exchange E insize inp out store mem tr = (Inr (r, mem'), tr')"
  shows "mem' = mem \<or> (\<exists>obuf n. store obuf n = Inr mem')"
  using assms
  by (auto simp: ca_exchange_def leave_def Let_def split: if_splits sum.splits prod.splits)

lemma store_rsp_length: "store_rsp p obuf n = Inr p' \<Longrightarrow> length p' = length p"
  by (auto simp: store_rsp_def split: sum.splits dest!: mem_write_length)

lemma sendCommand_buffer:
  assumes "sendCommand E c cmd n (Some p) m s = (Inr (ret, rsp'), s')"
  shows "\<exists>p'. rsp' = Some p' \<and> length p' = length p"
  using assms
  by (auto simp: sendCommand_def ca_sendEseCommand_def Let_def split: if_splits prod.splits sum.splits option.splits
      dest!: exchange_mem store_rsp_length)

lemma store_cplc_length:
  "store_cplc p obuf n = Inr (buf', len') \<Longrightarrow> \<exists>p'. buf' = Some p' \<and> length p' = length p \<and> len' = Some n"
  by (cases "mem_read obuf 0 (unat n)") (auto simp: store_cplc_def dest: mem_write_length)

lemma getEseCplc_buffer:
  assumes "getEseCplc E (Some p) (Some n) s = (Inr (ret, buf', len'), s')"
  shows "\<exists>p' n'. buf' = Some p' \<and> length p' = length p \<and> len' = Some n'"
proof -
  have "(buf' = Some p \<and> len' = Some n) \<or> (\<exists>obuf k. store_cplc p obuf k = Inr (buf', len'))"
    using assms
    by (auto simp: getEseCplc_def ca_getEseCplc_def Let_def split: if_splits prod.splits sum.splits option.splits
        dest!: exchange_mem)
  then show ?thesis using store_cplc_length by blast
qed

text \<open>A raw command sent through the proxy: when the lengths are sound, the service
  gets exactly the command, works on a response of zeros, and on success the client's response
  starts with what the service left there; on an error status it is untouched; a service that
  faults is reported as \<open>DEAD_OBJECT\<close>.\<close>

lemma remote_raw_command:
  assumes "parcel_fifo P items" and "delivers P items (served (Bnems_onTransact P B E c)) T"
    and "length cmd = unat cmdLen" and "unat rspLen \<le> length rsp" and "cmdLen \<noteq> 0" and "rspLen \<noteq> 0"
    and "unat cmdLen + unat rspLen < 2 ^ 32" and "unat rspLen < 2 ^ 31"
  shows "Bpems_sendCommand P T (Some cmd) cmdLen (Some rsp) rspLen s =
    (case sendCommand E c (Some cmd) cmdLen (Some (replicate (unat rspLen) 0)) rspLen s of
       (Inl f, s') \<Rightarrow> (Inr (DEAD_OBJECT, Some rsp), s')
     | (Inr (ret, r), s') \<Rightarrow>
         (Inr (ret, Some (if ret = NO_ERROR then the r @ drop (unat rspLen) rsp else rsp)), s'))"
proof -
  note F = fifo [OF assms(1)] ems_data_items [OF assms(1)]
  let ?z = "Some (replicate (unat rspLen) 0)"
  obtain d where d: "put_memory P (Some cmd) (unat cmdLen) (put_int32 P rspLen (put_int32 P cmdLen (ems_data P))) = Inr d"
    "items d = [Token ems_descriptor, Int32 cmdLen, Int32 rspLen, Bytes cmd]"
    using put_memory_items [OF assms(1), of "unat cmdLen" cmd "put_int32 P rspLen (put_int32 P cmdLen (ems_data P))"]
      assms(3) by (auto simp: F)
  obtain fill where fill: "write_inplace P (unat rspLen) (new_parcel P) = Some fill"
    "\<And>bs. length bs = unat rspLen \<Longrightarrow> items (fill bs) = [Bytes bs]"
    using fifo_write_inplace [OF assms(1,8), of "new_parcel P"] by (auto simp: F)
  have H: "Bnems_onTransact P B E c CMD_SEND_COMMAND d' (new_parcel P) s =
      (case sendCommand E c (Some cmd) cmdLen ?z rspLen s of
         (Inl f, s) \<Rightarrow> (Inl f, s) | (Inr (ret, r), s) \<Rightarrow> (Inr (ret, fill (the r)), s))"
    if "items d' = items d" for d'
    using that d(2) assms(3,5,6,7) fill(1)
    by (auto simp: Bnems_onTransact_def ems_codes on_send_command_def split_beta F guard_iff split: sum.split)
  obtain res s' where send: "sendCommand E c (Some cmd) cmdLen ?z rspLen s = (res, s')" by fastforce
  show ?thesis
  proof (cases res)
    case (Inl f)
    then obtain reply where "T CMD_SEND_COMMAND d s = ((DEAD_OBJECT, reply), s')"
      using transact_fault [OF assms(2), of d CMD_SEND_COMMAND s f s'] H send by auto
    with Inl send d(1) assms(5,6) show ?thesis
      by (simp add: Bpems_sendCommand_def status_defs)
  next
    case (Inr x)
    then obtain ret r where x: "res = Inr (ret, Some r)" "length r = unat rspLen"
      using sendCommand_buffer [of E c "Some cmd" cmdLen _ rspLen s] send by (cases x) fastforce
    then obtain reply where "T CMD_SEND_COMMAND d s = ((ret, reply), s')"
      "ret = NO_ERROR \<longrightarrow> items reply = [Bytes r]"
      using transact_served [OF assms(2), of d CMD_SEND_COMMAND s ret s' "[Bytes r]"] H send fill(2) by auto
    with x send d(1) assms(4-6) show ?thesis
      by (auto simp: Bpems_sendCommand_def F mem_write_def split_beta)
  qed
qed

lemma remote_raw_command_witness:
  "fst (Bpems_sendCommand list_parcel
     (loopback list_parcel (served (Bnems_onTransact list_parcel base_unknown working_ems system_caller)))
     (Some [3, 0, 0, 0, 0, 0xA4, 4]) 7 (Some [1, 1, 1, 1, 1, 1, 1, 1]) 6 ems_init) =
   Inr (NO_ERROR, Some [2, 0, 0, 0, 0x90, 0, 1, 1])"
proof -
  have zeros: "replicate 6 (0 :: u8) = [0, 0, 0, 0, 0, 0]" by (simp add: numeral_eq_Suc)
  from working_send obtain s' where
    "sendCommand working_ems system_caller (Some [3, 0, 0, 0, 0, 0xA4, 4]) 7 (Some [0, 0, 0, 0, 0, 0]) 6 ems_init =
     (Inr (NO_ERROR, Some [2, 0, 0, 0, 0x90, 0]), s')" by blast
  then show ?thesis
    using remote_raw_command [OF list_parcel_fifo loopback_delivers, where cmd = "[3, 0, 0, 0, 0, 0xA4, 4]"
        and cmdLen = 7 and rspLen = 6 and rsp = "[1, 1, 1, 1, 1, 1, 1, 1]" and B = base_unknown and E = working_ems
        and c = system_caller and s = ems_init]
    by (simp add: zeros)
qed

lemma Bpems_getEseCplc_service:
  assumes "parcel_fifo P items" and "delivers P items (served (Bnems_onTransact P B E c)) T"
    and "length buf = unat len" and "len \<noteq> 0" and "unat len < 2 ^ 31"
  shows "Bpems_getEseCplc P T (Some buf) (Some len) s =
    (case getEseCplc E (Some (replicate (unat len) 0)) (Some len) s of
       (Inl f, s') \<Rightarrow> (Inr (DEAD_OBJECT, Some (replicate (unat len) 0), Some len), s')
     | (Inr (ret, b, n), s') \<Rightarrow>
         (Inr (if ret = NO_ERROR then (NO_ERROR, b, n) else (ret, Some (replicate (unat len) 0), Some len)), s'))"
proof -
  note F = fifo [OF assms(1)] ems_data_items [OF assms(1)]
  let ?z = "Some (replicate (unat len) 0)" and ?d = "put_int32 P len (ems_data P)"
  obtain fill where fill: "write_inplace P (unat len) (new_parcel P) = Some fill"
    "\<And>bs. length bs = unat len \<Longrightarrow> items (fill bs) = [Bytes bs]"
    using fifo_write_inplace [OF assms(1,5), of "new_parcel P"] by (auto simp: F)
  have H: "Bnems_onTransact P B E c CMD_GETCPLC d' (new_parcel P) s =
      (case getEseCplc E ?z (Some len) s of (Inl f, s) \<Rightarrow> (Inl f, s)
       | (Inr (ret, b, n), s) \<Rightarrow> (Inr (ret, if ret = NO_ERROR then snd (write_int32 P (the n) (fill (the b)))
           else fill (the b)), s))"
    if "items d' = items ?d" for d'
    using that assms(4) fill(1)
    by (auto simp: Bnems_onTransact_def ems_codes on_get_cplc_def split_beta F Let_def split: sum.split)
  obtain res s' where get: "getEseCplc E ?z (Some len) s = (res, s')" by fastforce
  have zero: "mem_write buf 0 (replicate (unat len) 0) = Inr (replicate (unat len) 0)"
    using assms(3) by (simp add: mem_write_def)
  show ?thesis
  proof (cases res)
    case (Inl f)
    then obtain reply where "T CMD_GETCPLC ?d s = ((DEAD_OBJECT, reply), s')"
      using transact_fault [OF assms(2), of ?d CMD_GETCPLC s f s'] H get by auto
    with Inl get zero assms(4) show ?thesis
      by (simp add: Bpems_getEseCplc_def status_defs)
  next
    case (Inr x)
    then obtain ret b n where x: "res = Inr (ret, Some b, Some n)" "length b = unat len"
      using getEseCplc_buffer [of E _ len s] get by (cases x) fastforce
    then obtain reply where "T CMD_GETCPLC ?d s = ((ret, reply), s')"
      "ret = NO_ERROR \<longrightarrow> items reply = [Bytes b, Int32 n]"
      using transact_served [OF assms(2), of ?d CMD_GETCPLC s ret s' "[Bytes b, Int32 n]"] H get fill(2)
      by (auto simp: F)
    with x get zero assms(4) show ?thesis
      by (auto simp: Bpems_getEseCplc_def F mem_write_def split_beta)
  qed
qed

text \<open>The service's own request, with a library that works.\<close>

lemma getEseCplc_willing:
  assumes "tee_willing (ems_tee E)" and "len \<noteq> 0"
    and "tee_invoke (ems_tee E) (tee_ready 5 len (tee_log s)) HAL_TRANSMIT [0x80, 0xCA, 0x9F, 0x7F, 0x00] len = (r, ws, m)"
    and "r = 0 \<Longrightarrow> length ws = unat m \<and> unat m \<le> unat len \<and> unat m \<le> length buf"
  shows "getEseCplc E (Some buf) (Some len) s =
    (Inr (if is_neg (- r) then - r else NO_ERROR, if r = 0 then (Some (ws @ drop (unat m) buf), Some m) else (Some buf, Some len)),
     s\<lparr>tee_log := tee_left HAL_TRANSMIT [0x80, 0xCA, 0x9F, 0x7F, 0x00] len r (tee_ready 5 len (tee_log s))\<rparr>)"
proof -
  let ?inp = "\<lambda>n. mem_read getCplc_cmd 0 (unat (n :: u32))"
  have inp: "?inp 5 = Inr [0x80, 0xCA, 0x9F, 0x7F, 0x00]"
    by (simp add: mem_read_def getCplc_cmd_def)
  have five: "word_of_nat (length getCplc_cmd) = (5 :: u32)"
    by (simp add: getCplc_cmd_def)
  have "r = 0 \<Longrightarrow> store_cplc buf (overlay ws (replicate (unat len) 0)) m = Inr (Some (ws @ drop (unat m) buf), Some m)"
    using assms(4) overlay_all [of ws "unat len" 0]
    by (simp add: store_cplc_def mem_write_def mem_read_def)
  with assms(2) have "ca_getEseCplc (ems_tee E) (Some buf) (Some len) (tee_log s) =
      (Inr (if r = 0 then (0, Some (ws @ drop (unat m) buf), Some m) else (- r, Some buf, Some len)),
       tee_left HAL_TRANSMIT [0x80, 0xCA, 0x9F, 0x7F, 0x00] len r (tee_ready 5 len (tee_log s)))"
    unfolding ca_getEseCplc_def five
    by (simp add: exchange_willing [where inp = ?inp, OF assms(1) inp assms(3)])
  with assms(2) show ?thesis by (simp add: getEseCplc_def)
qed

text \<open>C26.  A CPLC request goes through proxy, parcel, stub, service and TEE library to the trusted
  application, and its answer all the way back: with a transport and a library that work, the
  trusted application receives exactly the command \<open>80 CA 9F 7F 00\<close> with room for the client's
  buffer; when it answers \<open>m\<close> bytes, the client gets \<open>NO_ERROR\<close>, these bytes at the start of its
  buffer, zeros behind them, and the length \<open>m\<close>; when it fails, the client's buffer is zeroed, its
  length kept, and the status is the negated result if that is negative and \<open>NO_ERROR\<close> if not.
  The library is left as it was found.\<close>

theorem remote_cplc:
  assumes "parcel_fifo P items" and "delivers P items (served (Bnems_onTransact P B E c)) T"
    and "length buf = unat len" and "len \<noteq> 0" and "unat len < 2 ^ 31" and "tee_willing (ems_tee E)"
    and "tee_invoke (ems_tee E) (tee_ready 5 len (tee_log s)) HAL_TRANSMIT [0x80, 0xCA, 0x9F, 0x7F, 0x00] len = (r, ws, m)"
    and "r = 0 \<Longrightarrow> length ws = unat m \<and> unat m \<le> unat len"
  shows "Bpems_getEseCplc P T (Some buf) (Some len) s =
    (Inr (if r = 0 then (NO_ERROR, Some (ws @ replicate (unat len - unat m) 0), Some m)
          else (if is_neg (- r) then - r else NO_ERROR, Some (replicate (unat len) 0), Some len)),
     s\<lparr>tee_log := tee_left HAL_TRANSMIT [0x80, 0xCA, 0x9F, 0x7F, 0x00] len r (tee_ready 5 len (tee_log s))\<rparr>)"
  unfolding Bpems_getEseCplc_service [OF assms(1-5)]
  using getEseCplc_willing [OF assms(6,4,7), of "replicate (unat len) 0"] assms(8)
  by (auto simp: status_defs)

text \<open>A trusted application that answers two bytes, and one that fails with \<open>0xFFFF000E\<close>.\<close>

lemma remote_cplc_witness:
  "fst (Bpems_getEseCplc list_parcel
     (loopback list_parcel (served (Bnems_onTransact list_parcel base_unknown working_ems system_caller)))
     (Some [1, 2, 3]) (Some 3) ems_init) = Inr (NO_ERROR, Some [0x90, 0, 0], Some 2) \<and>
   fst (Bpems_getEseCplc list_parcel
     (loopback list_parcel (served (Bnems_onTransact list_parcel base_unknown failing_ems system_caller)))
     (Some [1, 2, 3]) (Some 3) ems_init) = Inr (NO_ERROR, Some [0, 0, 0], Some 3)"
proof
  have three: "replicate 3 (0 :: u8) = [0, 0, 0]" by (simp add: numeral_eq_Suc)
  show "fst (Bpems_getEseCplc list_parcel
     (loopback list_parcel (served (Bnems_onTransact list_parcel base_unknown working_ems system_caller)))
     (Some [1, 2, 3]) (Some 3) ems_init) = Inr (NO_ERROR, Some [0x90, 0, 0], Some 2)"
    using remote_cplc [OF list_parcel_fifo loopback_delivers, where buf = "[1, 2, 3]" and len = 3 and r = 0
        and ws = "[0x90, 0]" and m = 2 and B = base_unknown and E = working_ems and c = system_caller and s = ems_init]
    by (simp add: working_ems_def failing_ems_def echo_tee_def tee_willing_def)
  show "fst (Bpems_getEseCplc list_parcel
     (loopback list_parcel (served (Bnems_onTransact list_parcel base_unknown failing_ems system_caller)))
     (Some [1, 2, 3]) (Some 3) ems_init) = Inr (NO_ERROR, Some [0, 0, 0], Some 3)"
    using remote_cplc [OF list_parcel_fifo loopback_delivers, where buf = "[1, 2, 3]" and len = 3 and r = "0xFFFF000E"
        and ws = "[]" and m = 0 and B = base_unknown and E = failing_ems and c = system_caller and s = ems_init]
    by (simp add: failing_ems_def failing_tee_def echo_tee_def tee_willing_def three is_neg_minus)
qed

end
