(* ===== verification/ManagerClient.thy ===== *)
theory ManagerClient
  imports ManagerBinder ServiceClient
begin

text \<open>
  The clients of the manager service: the wrapper \<open>eseManager_wrapper.cpp\<close> and the command
  line tool \<open>main_eseManagerClient.cpp\<close>.
\<close>

subsection \<open>The wrapper library\<close>

definition eseManagerServiceName :: string where "eseManagerServiceName = ''eseManagerService''"

definition getEseManagerServiceClient :: "sm_env \<Rightarrow> 'w client \<Rightarrow> ibinder option \<times> 'w client" where
  "getEseManagerServiceClient M = service_client M eseManagerServiceName"

definition ese_getEseCplc :: "sm_env \<Rightarrow> 'p parcel_api \<Rightarrow> (ibinder \<Rightarrow> ('p, 'w) remote) \<Rightarrow> u8 list option \<Rightarrow>
    u32 option \<Rightarrow> 'w client \<Rightarrow> (i32 \<times> u8 list option \<times> u32 option) outcome \<times> 'w client" where
  "ese_getEseCplc M P R cplc_buf cplc_len =
     via_proxy M eseManagerServiceName (Inr (- 1, cplc_buf, cplc_len))
       (\<lambda>b. Bpems_getEseCplc P (R b) cplc_buf cplc_len)"

definition ese_sendCommandEx :: "sm_env \<Rightarrow> 'p parcel_api \<Rightarrow> (ibinder \<Rightarrow> ('p, 'w) remote) \<Rightarrow> u32 \<Rightarrow>
    u8 list option \<Rightarrow> u32 \<Rightarrow> 'w client \<Rightarrow> i32 outcome \<times> 'w client" where
  "ese_sendCommandEx M P R cmd_id buffer len =
     via_proxy M eseManagerServiceName (Inr (- 1)) (\<lambda>b. Bpems_sendCommandEx P (R b) cmd_id buffer len)"

text \<open>\<open>eseManagerDeathObserver::binderDied\<close>.\<close>

definition ems_died :: "'w client \<Rightarrow> 'w client" where "ems_died s = forget_proxy s"

subsection \<open>The command line tool\<close>

text \<open>
  The arguments come without the program's name, so a missing second argument is the null
  pointer that ends \<open>argv\<close>.  The result is the exit code with the value that was logged, if any
  command was sent; an argument that begins with none of the three digits sends nothing.
\<close>

definition c_bytes :: "string \<Rightarrow> u8 list" where
  "c_bytes cs = map (\<lambda>ch. word_of_nat (of_char ch)) cs"

definition starts_with :: "char \<Rightarrow> string \<Rightarrow> bool" where
  "starts_with ch arg = (case arg of [] \<Rightarrow> False | a # _ \<Rightarrow> a = ch)"

definition ems_tool_main :: "sm_env \<Rightarrow> 'p parcel_api \<Rightarrow> (ibinder \<Rightarrow> ('p, 'w) remote) \<Rightarrow> string list \<Rightarrow>
    'w client \<Rightarrow> (i32 \<times> i32 option) outcome \<times> 'w client" where
  "ems_tool_main M P R args s =
     (let logged = (\<lambda>(res, s). (map_sum id (\<lambda>r. (0, Some r)) res, s)) in
      case args of [] \<Rightarrow> logged (ese_sendCommandEx M P R GET_ESE_BINDDING_STATUS None 0 s)
      | a # rest \<Rightarrow>
          if starts_with CHR ''1'' a then logged (ese_sendCommandEx M P R START_BINDING None 0 s)
          else if starts_with CHR ''2'' a then logged (ese_sendCommandEx M P R GET_ESE_BINDDING_STATUS None 0 s)
          else if starts_with CHR ''3'' a then
            (case rest of [] \<Rightarrow> (Inr (- 1, None), s)
             | verify_data # _ \<Rightarrow> logged (ese_sendCommandEx M P R CLEAR_BINDING_INFO
                 (Some (c_bytes verify_data)) (word_of_nat (length verify_data)) s))
          else (Inr (0, None), s))"

lemma ese_sendCommandEx_found:
  assumes "parcel_fifo P items" and "\<And>b. delivers P items (served (Bnems_onTransact P B E c)) (R b)"
    and "ensure_proxy M eseManagerServiceName s = (Some b, s1)" and "length buf = unat len"
  shows "fst (ese_sendCommandEx M P R k (Some buf) len s) = Inr (fst (sendCommandEx E c k (Some buf) len (world s)))"
    "world (snd (ese_sendCommandEx M P R k (Some buf) len s)) = snd (sendCommandEx E c k (Some buf) len (world s))"
proof -
  have "Bpems_sendCommandEx P (R b) k (Some buf) len w =
      (Inr (fst (sendCommandEx E c k (Some buf) len w)), snd (sendCommandEx E c k (Some buf) len w))" for w
    using Bpems_transparent [OF assms(1,2,4)] by (simp add: split_beta)
  then show "fst (ese_sendCommandEx M P R k (Some buf) len s) = Inr (fst (sendCommandEx E c k (Some buf) len (world s)))"
    "world (snd (ese_sendCommandEx M P R k (Some buf) len s)) = snd (sendCommandEx E c k (Some buf) len (world s))"
    by (simp_all add: ese_sendCommandEx_def via_proxy_found [OF assms(3)])
qed

lemma ese_sendCommandEx_null:
  "ese_sendCommandEx M P R k None 0 s = ese_sendCommandEx M P R k (Some []) 0 s"
  by (simp add: ese_sendCommandEx_def Bpems_sendCommandEx_null)

text \<open>The command line tool of the manager: when the service is found, no argument and
  an argument starting with \<open>2\<close> ask for the binding status, \<open>1\<close> starts the binding, and \<open>3\<close> with a
  string clears it with the bytes of the string; \<open>3\<close> alone fails with \<open>-1\<close> and anything else
  does nothing.\<close>

lemma manager_tool_commands:
  assumes "parcel_fifo P items" and "\<And>b. delivers P items (served (Bnems_onTransact P B E c)) (R b)"
    and "ensure_proxy M eseManagerServiceName s = (Some b, s1)" and "length v < 2 ^ 32"
  shows "fst (ems_tool_main M P R [] s) =
      Inr (0, Some (fst (sendCommandEx E c GET_ESE_BINDDING_STATUS (Some []) 0 (world s)))) \<and>
    fst (ems_tool_main M P R ((CHR ''1'' # a) # rest) s) =
      Inr (0, Some (fst (sendCommandEx E c START_BINDING (Some []) 0 (world s)))) \<and>
    fst (ems_tool_main M P R ((CHR ''3'' # a) # v # rest) s) =
      Inr (0, Some (fst (sendCommandEx E c CLEAR_BINDING_INFO (Some (c_bytes v)) (word_of_nat (length v)) (world s)))) \<and>
    ems_tool_main M P R [CHR ''3'' # a] s = (Inr (- 1, None), s) \<and>
    (hd a \<notin> {CHR ''1'', CHR ''2'', CHR ''3''} \<longrightarrow> ems_tool_main M P R (a # rest) s = (Inr (0, None), s) \<or> a = [])"
proof -
  have len: "unat (word_of_nat (length v) :: u32) = length v"
    using assms(4) by (simp add: unat_of_nat)
  note found = ese_sendCommandEx_found [OF assms(1-3)]
  show ?thesis
    by (auto simp: ems_tool_main_def starts_with_def ese_sendCommandEx_null found c_bytes_def len Let_def
        split_beta split: list.splits)
qed

lemma manager_tool_commands_witness:
  "fst (ems_tool_main (published_after 0 9) list_parcel
      (\<lambda>_. loopback list_parcel (served (Bnems_onTransact list_parcel base_unknown failing_ems system_caller)))
      [''3'', ''ok''] (client_start ems_init)) = Inr (0, Some 0)"
proof -
  have e: "ensure_proxy (published_after 0 9) eseManagerServiceName (client_start ems_init) =
      (Some 9, (client_start ems_init)\<lparr>g_proxy := Some 9, sm_trace :=
        [EvObserve 9, EvGetService eseManagerServiceName (Some 9)]\<rparr>)"
    by (simp add: published_now client_start_def)
  have "\<not> bad_uid (calling_uid system_caller)"
    using bad_uid_system [of "calling_uid system_caller"] by auto
  then have "fst (sendCommandEx failing_ems system_caller CLEAR_BINDING_INFO b n s) = 0" for b n s
    by (simp add: sendCommandEx_def clearBindingInfo_def failing_ems_def CLEAR_BINDING_INFO_def
        START_BINDING_def GET_ESE_BINDDING_STATUS_def)
  then show ?thesis
    using manager_tool_commands [OF list_parcel_fifo loopback_delivers e, where B = base_unknown and E = failing_ems
        and c = system_caller and v = "''ok''" and a = "[]" and rest = "[]"]
    by (simp add: client_start_def)
qed

end
