(* ===== verification/Servers.thy ===== *)
theory Servers
  imports PowerClient ManagerClient
begin

text \<open>
  The two server programs, \<open>eSEPowerManagerServer.cpp\<close> and \<open>main_eseManagerService.cpp\<close>, and how
  their clients find them: what a server publishes and when, against the look-ups of the wrapper
  libraries, which may start before it.
\<close>

subsection \<open>The programs\<close>

datatype server_event = EvStartThreadPool | EvAddService string i32 | EvJoinThreadPool

text \<open>
  The calls of each \<open>main\<close>, oldest first; \<open>add\<close> is the status with which the service manager
  answers \<open>addService\<close>, which neither program tests.
\<close>

definition epm_server_main :: "(string \<Rightarrow> i32) \<Rightarrow> server_event list" where
  "epm_server_main add = [EvStartThreadPool,
     EvAddService ''eSEPowerManagerService'' (add ''eSEPowerManagerService''), EvJoinThreadPool]"

definition eseManagerService_getServiceName :: string where
  "eseManagerService_getServiceName = ''eseManagerService''"

definition ems_server_main :: "(string \<Rightarrow> i32) \<Rightarrow> server_event list" where
  "ems_server_main add = [EvAddService eseManagerService_getServiceName (add eseManagerService_getServiceName),
     EvStartThreadPool, EvJoinThreadPool]"

subsection \<open>What is published\<close>

definition published :: "string \<Rightarrow> server_event list \<Rightarrow> bool" where
  "published name evs \<longleftrightarrow> EvAddService name NO_ERROR \<in> set evs"

text \<open>
  The service manager of a client: when it has made \<open>k\<close> attempts to find a service, the servers have
  made \<open>progress k\<close> of their calls; a published name gets the object \<open>bind\<close> gives it.
\<close>

definition boot_env :: "(string \<Rightarrow> i32) \<Rightarrow> (nat \<Rightarrow> nat \<times> nat) \<Rightarrow> (string \<Rightarrow> ibinder) \<Rightarrow> sm_env" where
  "boot_env add progress bind = \<lparr>get_service = (\<lambda>tr name. case progress (attempts tr) of (i, j) \<Rightarrow>
     if published name (take i (epm_server_main add) @ take j (ems_server_main add)) then Some (bind name) else None)\<rparr>"

lemma boot_epm: "get_service (boot_env add progress bind) tr esePMerviceName =
    (if 2 \<le> fst (progress (attempts tr)) \<and> add esePMerviceName = NO_ERROR then Some (bind esePMerviceName) else None)"
proof -
  have "EvAddService esePMerviceName NO_ERROR \<in> set (take i (epm_server_main add)) \<longleftrightarrow>
      2 \<le> i \<and> add esePMerviceName = NO_ERROR" for i
    by (cases i; cases "i - 1") (auto simp: epm_server_main_def esePMerviceName_def take_Cons split: nat.splits)
  moreover have "EvAddService esePMerviceName NO_ERROR \<notin> set (take j (ems_server_main add))" for j
    by (auto simp: ems_server_main_def esePMerviceName_def eseManagerService_getServiceName_def dest!: in_set_takeD)
  ultimately show ?thesis by (auto simp: boot_env_def published_def split: prod.split)
qed

lemma boot_ems: "get_service (boot_env add progress bind) tr eseManagerServiceName =
    (if 1 \<le> snd (progress (attempts tr)) \<and> add eseManagerServiceName = NO_ERROR then Some (bind eseManagerServiceName) else None)"
proof -
  have "EvAddService eseManagerServiceName NO_ERROR \<in> set (take j (ems_server_main add)) \<longleftrightarrow>
      1 \<le> j \<and> add eseManagerServiceName = NO_ERROR" for j
    by (cases j) (auto simp: ems_server_main_def eseManagerServiceName_def eseManagerService_getServiceName_def
        take_Cons split: nat.splits)
  moreover have "EvAddService eseManagerServiceName NO_ERROR \<notin> set (take i (epm_server_main add))" for i
    by (auto simp: epm_server_main_def eseManagerServiceName_def dest!: in_set_takeD)
  ultimately show ?thesis by (auto simp: boot_env_def published_def split: prod.split)
qed

subsection \<open>Finding the servers\<close>

text \<open>A look-up against a service that is there from some attempts on finds it in one of them.\<close>

lemma wait_finds:
  assumes "\<And>tr. get_service M tr name = (if ready (attempts tr) then Some b else None)" and "count < 5"
  shows "fst (wait_for_service M name count s) =
    (if \<exists>k<5 - count. ready (attempts (sm_trace s) + k) then Some b else None)"
  using assms(2)
proof (induction "5 - count" arbitrary: count s)
  case (Suc m)
  obtain g s1 where get: "do_get_service M name s = (g, s1)" by fastforce
  then have g: "g = (if ready (attempts (sm_trace s)) then Some b else None)"
    and a: "attempts (sm_trace (do_usleep (10 * 1000) s1)) = Suc (attempts (sm_trace s))"
    by (auto simp: do_get_service_def assms(1) do_usleep_def Let_def)
  have w: "fst (wait_for_service M name count s) = (if g \<noteq> None then g else if count + 1 < 5
      then fst (wait_for_service M name (count + 1) (do_usleep (10 * 1000) s1)) else None)"
    by (subst wait_for_service.simps) (simp add: get Let_def)
  have split: "(\<exists>k<5 - count. P k) \<longleftrightarrow> P 0 \<or> (\<exists>k<5 - (count + 1). P (Suc k))" for P
  proof -
    have "5 - count = Suc (5 - (count + 1))" using Suc.prems by simp
    then show ?thesis by (auto simp: less_Suc_eq_0_disj)
  qed
  show ?case
  proof (cases "g = None \<and> count + 1 < 5")
    case True
    then have "fst (wait_for_service M name (count + 1) (do_usleep (10 * 1000) s1)) =
        (if \<exists>k<5 - (count + 1). ready (Suc (attempts (sm_trace s)) + k) then Some b else None)"
      using Suc.hyps(1) [of "count + 1" "do_usleep (10 * 1000) s1"] Suc.hyps(2) a by simp
    with True g show ?thesis by (simp only: w split) (auto split: if_splits)
  next
    case False
    with g show ?thesis using Suc.prems by (simp only: w split) (auto split: if_splits)
  qed
qed simp

lemma ensure_finds:
  assumes "\<And>tr. get_service M tr name = (if ready (attempts tr) then Some b else None)"
  shows "fst (ensure_proxy M name (client_start w)) = (if \<exists>k<5. ready k then Some b else None)"
  using wait_finds [OF assms, of 0 "client_start w"]
  by (auto simp: ensure_proxy_def service_client_def client_start_def split_beta Let_def)

text \<open>C21.  A client that starts while the servers do finds them exactly when they publish in time:
  the wrapper of each service gets its proxy if and only if \<open>addService\<close> succeeded and was made
  before the last of its five attempts; the names on both sides agree, and the order of the calls in
  each \<open>main\<close> counts.  A server whose \<open>addService\<close> fails goes on, and is never found.\<close>

theorem servers_found:
  "fst (ensure_proxy (boot_env add progress bind) esePMerviceName (client_start w)) =
     (if add ''eSEPowerManagerService'' = NO_ERROR \<and> (\<exists>k<5. 2 \<le> fst (progress k))
      then Some (bind ''eSEPowerManagerService'') else None) \<and>
   fst (ensure_proxy (boot_env add progress bind) eseManagerServiceName (client_start w')) =
     (if add ''eseManagerService'' = NO_ERROR \<and> (\<exists>k<5. 1 \<le> snd (progress k))
      then Some (bind ''eseManagerService'') else None)"
proof -
  let ?M = "boot_env add progress bind"
  have "fst (ensure_proxy ?M esePMerviceName (client_start w)) =
      (if \<exists>k<5. 2 \<le> fst (progress k) \<and> add esePMerviceName = NO_ERROR then Some (bind esePMerviceName) else None)"
    by (rule ensure_finds [where ready = "\<lambda>k. 2 \<le> fst (progress k) \<and> add esePMerviceName = NO_ERROR"]) (rule boot_epm)
  moreover have "fst (ensure_proxy ?M eseManagerServiceName (client_start w')) =
      (if \<exists>k<5. 1 \<le> snd (progress k) \<and> add eseManagerServiceName = NO_ERROR
       then Some (bind eseManagerServiceName) else None)"
    by (rule ensure_finds [where ready = "\<lambda>k. 1 \<le> snd (progress k) \<and> add eseManagerServiceName = NO_ERROR"])
      (rule boot_ems)
  ultimately show ?thesis by (auto simp: esePMerviceName_def eseManagerServiceName_def)
qed

end
