(* ===== verification/Jni.thy ===== *)
theory Jni
  imports PowerClient ManagerClient
begin

text \<open>
  The native half of the Java API, \<open>eseManager_fw/jni/eseManager_jni.cpp\<close>: an application
  process that is a client of both services, and uses the secure element only between a
  \<open>powerOn\<close> and a \<open>powerOff\<close>.
\<close>

subsection \<open>The process\<close>

text \<open>
  The process has one proxy for each service; the worlds behind them are the two daemons.
  The parameters are the platform's: service manager, parcels, transports, the callback object
  of the process, and whether the Java heap can give an array of some length.
\<close>

record app =
  pm :: "epm client"
  ms :: "ems client"

record 'p app_env =
  a_sm :: sm_env
  a_parcel :: "'p parcel_api"
  a_pm :: "ibinder \<Rightarrow> ('p, epm) remote"
  a_ms :: "ibinder \<Rightarrow> ('p, ems) remote"
  a_cb :: ibinder
  new_byte_array :: "nat \<Rightarrow> bool"

definition app_powerOn :: "'p app_env \<Rightarrow> app \<Rightarrow> i32 \<times> app" where
  "app_powerOn X s = (let (r, c) = wrap_powerOn (a_sm X) (a_parcel X) (a_pm X) (a_cb X) (pm s) in (r, s\<lparr>pm := c\<rparr>))"

definition app_powerOff :: "'p app_env \<Rightarrow> app \<Rightarrow> i32 \<times> app" where
  "app_powerOff X s = (let (r, c) = wrap_powerOff (a_sm X) (a_parcel X) (a_pm X) (pm s) in (r, s\<lparr>pm := c\<rparr>))"

definition app_getState :: "'p app_env \<Rightarrow> app \<Rightarrow> i32 \<times> app" where
  "app_getState X s = (let (r, c) = wrap_getState (a_sm X) (a_parcel X) (a_pm X) (pm s) in (r, s\<lparr>pm := c\<rparr>))"

definition app_getEseCplc :: "'p app_env \<Rightarrow> u8 list option \<Rightarrow> u32 option \<Rightarrow> app \<Rightarrow>
    (i32 \<times> u8 list option \<times> u32 option) outcome \<times> app" where
  "app_getEseCplc X buf len s =
     (let (r, c) = ese_getEseCplc (a_sm X) (a_parcel X) (a_ms X) buf len (ms s) in (r, s\<lparr>ms := c\<rparr>))"

subsection \<open>Native methods\<close>

text \<open>Its body is commented out: it returns a null array.\<close>

definition native_eseSendCommand :: "u8 list option \<Rightarrow> app \<Rightarrow> u8 list option \<times> app" where
  "native_eseSendCommand cmd s = (None, s)"

definition native_eseSendCommandEx :: "'p app_env \<Rightarrow> u32 \<Rightarrow> u8 list option \<Rightarrow> app \<Rightarrow> i32 outcome \<times> app" where
  "native_eseSendCommandEx X cmd_id bufferArray s =
     (let zeros = replicate 100 0;
          send = (\<lambda>buffer n. let (r, c) = ese_sendCommandEx (a_sm X) (a_parcel X) (a_ms X) cmd_id (Some buffer) n (ms s)
            in (r, s\<lparr>ms := c\<rparr>))
      in case bufferArray of None \<Rightarrow> send zeros 0
        | Some arr \<Rightarrow>
            if 100 < length arr then (Inr (- 1), s)
            else (case mem_write zeros 0 arr of Inl f \<Rightarrow> (Inl f, s)
              | Inr buffer \<Rightarrow> send buffer (word_of_nat (length arr))))"

text \<open>
  The part that \<open>native_eseGetCplc\<close> and \<open>native_eseValidateChipLegality\<close> share: power on,
  request, power off; \<open>None\<close> is one of the two early returns.
\<close>

definition read_cplc :: "'p app_env \<Rightarrow> app \<Rightarrow> (u8 list \<times> u32) option outcome \<times> app" where
  "read_cplc X s =
     (let (ret, s) = app_powerOn X s in
      if is_neg ret then (Inr None, s)
      else case app_getEseCplc X (Some (replicate 100 0)) (Some 100) s of
        (Inl f, s) \<Rightarrow> (Inl f, s)
      | (Inr (ret, r_cplc, len), s) \<Rightarrow>
          (let s = snd (app_powerOff X s) in
           if is_neg ret then (Inr None, s) else (Inr (Some (the r_cplc, the len)), s)))"

definition native_eseGetCplc :: "'p app_env \<Rightarrow> app \<Rightarrow> u8 list option outcome \<times> app" where
  "native_eseGetCplc X s =
     (case read_cplc X s of
        (Inl f, s) \<Rightarrow> (Inl f, s)
      | (Inr None, s) \<Rightarrow> (Inr None, s)
      | (Inr (Some (r_cplc, len)), s) \<Rightarrow>
          if \<not> new_byte_array X (unat len) then (Inr None, s)
          else (map_sum id Some (mem_read r_cplc 0 (unat len)), s))"

definition native_eseGetBindingStatus :: "'p app_env \<Rightarrow> app \<Rightarrow> i32 \<times> app" where
  "native_eseGetBindingStatus X s =
     (let (r, c) = wrap_geteSEBindingStatus (a_sm X) (a_parcel X) (a_pm X) (pm s) in (r, s\<lparr>pm := c\<rparr>))"

text \<open>The comparison of \<open>r_cplc[3]\<close> and \<open>r_cplc[4]\<close> reads a buffer of 100 bytes.\<close>

definition native_eseValidateChipLegality :: "'p app_env \<Rightarrow> app \<Rightarrow> bool outcome \<times> app" where
  "native_eseValidateChipLegality X s =
     (case read_cplc X s of
        (Inl f, s) \<Rightarrow> (Inl f, s)
      | (Inr None, s) \<Rightarrow> (Inr False, s)
      | (Inr (Some (r_cplc, len)), s) \<Rightarrow>
          if len < 47 then (Inr False, s)
          else (map_sum id (\<lambda>bs. \<not> (bs \<noteq> [0x47, 0x90])) (mem_read r_cplc 3 2), s))"

subsection \<open>Registration\<close>

definition classPathName :: string where "classPathName = ''com/gionee/esemanager/esemanagerAPI''"

definition jni_methods :: "(string \<times> string) list" where
  "jni_methods =
    [(''native_eseGetCplc'', ''()[B''),
     (''native_eseSendCommand'', ''([B)[B''),
     (''native_eseSendCommandEx'', ''(I[B)I''),
     (''native_eseGetBindingStatus'', ''()I''),
     (''native_eseValidateChipLegality'', ''()Z'')]"

record jvm =
  get_env :: i32
  find_class :: "string \<Rightarrow> bool"
  register_natives :: "string \<Rightarrow> (string \<times> string) list \<Rightarrow> i32"

definition JNI_VERSION_1_4 :: i32 where "JNI_VERSION_1_4 = 0x00010004"

definition registerNativeMethods :: "jvm \<Rightarrow> string \<Rightarrow> (string \<times> string) list \<Rightarrow> bool" where
  "registerNativeMethods vm cls gMethods =
     (if \<not> find_class vm cls then False else \<not> is_neg (register_natives vm cls gMethods))"

definition registerNatives :: "jvm \<Rightarrow> bool" where
  "registerNatives vm = registerNativeMethods vm classPathName jni_methods"

definition JNI_OnLoad :: "jvm \<Rightarrow> i32" where
  "JNI_OnLoad vm = (if get_env vm \<noteq> 0 then - 1 else if \<not> registerNatives vm then - 1 else JNI_VERSION_1_4)"

subsection \<open>A process connected to both services\<close>

text \<open>
  The transports lead to the two daemons, which see the process as the callers \<open>c\<close>, and the
  service manager knows both services.
\<close>

definition connected :: "'p app_env \<Rightarrow> ('p \<Rightarrow> item list) \<Rightarrow> (u32 \<Rightarrow> 'p \<Rightarrow> 'p \<Rightarrow> i32 \<times> 'p) \<Rightarrow>
    epm_env \<Rightarrow> ems_env \<Rightarrow> caller \<Rightarrow> bool" where
  "connected X items B E F c \<longleftrightarrow> parcel_fifo (a_parcel X) items \<and>
     (\<forall>b. delivers (a_parcel X) items (Bne_onTransact (a_parcel X) B E c) (a_pm X b)) \<and>
     (\<forall>b. delivers (a_parcel X) items (served (Bnems_onTransact (a_parcel X) B F c)) (a_ms X b))"

lemma app_power_world:
  assumes "connected X items B E F c"
  shows "(fst (app_powerOn X s), world (pm (snd (app_powerOn X s)))) =
      (case fst (ensure_proxy (a_sm X) esePMerviceName (pm s)) of None \<Rightarrow> (- 1, world (pm s))
       | Some b \<Rightarrow> powerOn E c (Some (a_cb X)) (world (pm s)))"
    "(fst (app_powerOff X s), world (pm (snd (app_powerOff X s)))) =
      (case fst (ensure_proxy (a_sm X) esePMerviceName (pm s)) of None \<Rightarrow> (- 1, world (pm s))
       | Some b \<Rightarrow> powerOff E c (world (pm s)))"
proof -
  obtain p s1 where e: "ensure_proxy (a_sm X) esePMerviceName (pm s) = (p, s1)" by fastforce
  have P: "parcel_fifo (a_parcel X) items"
    and D: "\<And>b. delivers (a_parcel X) items (Bne_onTransact (a_parcel X) B E c) (a_pm X b)"
    using assms by (simp_all add: connected_def)
  have eq: "Bp_powerOn (a_parcel X) (a_pm X b) cb w = powerOn E c cb w"
    "Bp_powerOff (a_parcel X) (a_pm X b) w = powerOff E c w" for b cb w
    using Bp_transparent [OF P D] by blast+
  show "(fst (app_powerOn X s), world (pm (snd (app_powerOn X s)))) =
      (case fst (ensure_proxy (a_sm X) esePMerviceName (pm s)) of None \<Rightarrow> (- 1, world (pm s))
       | Some b \<Rightarrow> powerOn E c (Some (a_cb X)) (world (pm s)))"
    using e by (cases p) (simp_all add: app_powerOn_def wrap_powerOn_def split_beta eq
        via_proxy_lost [of _ _ "pm s"] via_proxy_found [of _ _ "pm s"])
  show "(fst (app_powerOff X s), world (pm (snd (app_powerOff X s)))) =
      (case fst (ensure_proxy (a_sm X) esePMerviceName (pm s)) of None \<Rightarrow> (- 1, world (pm s))
       | Some b \<Rightarrow> powerOff E c (world (pm s)))"
    using e by (cases p) (simp_all add: app_powerOff_def wrap_powerOff_def split_beta eq
        via_proxy_lost [of _ _ "pm s"] via_proxy_found [of _ _ "pm s"])
qed

lemma app_powerOn_proxy:
  assumes "\<not> is_neg (fst (app_powerOn X s))"
  shows "g_proxy (pm (snd (app_powerOn X s))) \<noteq> None \<and> fst (ensure_proxy (a_sm X) esePMerviceName (pm s)) \<noteq> None"
proof -
  obtain p s1 where e: "ensure_proxy (a_sm X) esePMerviceName (pm s) = (p, s1)" by fastforce
  with assms show ?thesis
    by (cases p) (auto simp: app_powerOn_def wrap_powerOn_def split_beta
        via_proxy_lost [of _ _ "pm s"] via_proxy_found [of _ _ "pm s"])
qed

lemma app_getEseCplc_pm: "pm (snd (app_getEseCplc X b n s)) = pm s"
  by (simp add: app_getEseCplc_def split_beta)

text \<open>The world of the power daemon after a CPLC request: one \<open>powerOn\<close>, and its \<open>powerOff\<close>.\<close>

lemma read_cplc_world:
  assumes "connected X items B E F c" and "read_cplc X s = (Inr x, s')"
  shows "(\<exists>ret. world (pm s') = world (pm s) \<or>
      (is_neg ret \<and> powerOn E c (Some (a_cb X)) (world (pm s)) = (ret, world (pm s')))) \<or>
    (\<exists>ret w ret'. \<not> is_neg ret \<and> powerOn E c (Some (a_cb X)) (world (pm s)) = (ret, w) \<and>
      powerOff E c w = (ret', world (pm s')))"
proof -
  define on where "on = app_powerOn X s"
  define cp where "cp = app_getEseCplc X (Some (replicate 100 0)) (Some 100) (snd on)"
  note W = app_power_world [OF assms(1)]
  show ?thesis
  proof (cases "is_neg (fst on)")
    case True
    then have "s' = snd on" using assms(2) by (simp add: read_cplc_def on_def split_beta)
    with True W(1) [of s] show ?thesis
      by (cases "fst (ensure_proxy (a_sm X) esePMerviceName (pm s))") (auto simp: on_def)
  next
    case False
    then have "s' = snd (app_powerOff X (snd cp))"
      using assms(2) by (auto simp: read_cplc_def on_def cp_def split_beta Let_def split: sum.splits if_splits)
    moreover have "pm (snd cp) = pm (snd on)" by (simp add: cp_def app_getEseCplc_pm)
    moreover obtain b where "g_proxy (pm (snd on)) = Some b"
      using app_powerOn_proxy [of X s] False by (auto simp: on_def)
    then have "ensure_proxy (a_sm X) esePMerviceName (pm (snd on)) = (Some b, pm (snd on))"
      by (rule ensure_proxy_hit)
    moreover obtain b' where "fst (ensure_proxy (a_sm X) esePMerviceName (pm s)) = Some b'"
      using app_powerOn_proxy [of X s] False by (auto simp: on_def)
    ultimately show ?thesis
      using False W(1) [of s] W(2) [of "snd cp"] by (auto simp: on_def prod_eq_iff)
  qed
qed

lemma read_cplc_ledger:
  assumes "connected X items B E F c" and "read_cplc X s = (Inr x, s')"
    and "reaches E n (world (pm s))" and "n + 1 < 2 ^ 31 - 1"
  shows "ledger_of (world (pm s')) = ledger_of (world (pm s))"
  using read_cplc_world [OF assms(1,2)]
proof (elim disjE exE conjE)
  fix ret assume "is_neg ret" "powerOn E c (Some (a_cb X)) (world (pm s)) = (ret, world (pm s'))"
  with powerOn_registry [OF this(2)] show ?thesis by (auto intro: ledger_cong)
next
  fix ret w ret'
  assume on: "\<not> is_neg ret" "powerOn E c (Some (a_cb X)) (world (pm s)) = (ret, w)"
    and off: "powerOff E c w = (ret', world (pm s'))"
  from on powerOn_registry [OF on(2)] have ok: "ret = 1" "\<not> bad_uid (calling_uid c)" by auto
  from on(2) have step: "epm_step E (world (pm s)) (ReqPowerOn c (Some (a_cb X))) ret w" by simp
  have "reg_inv n (world (pm s))" using assms(3,4) by (intro reaches_reg_inv) auto
  from ledger_step_refines [OF step this] assms(4) ok
  have "ledger_of w = (ledger_of (world (pm s)))(calling_pid c := ledger_of (world (pm s)) (calling_pid c) + 1)"
    by simp
  moreover have "reg_inv (Suc n) w"
    using assms(4) reaches.step [OF assms(3) step] by (intro reaches_reg_inv) auto
  then have "ledger_of (world (pm s')) = ledger_step (ReqPowerOff c) ret' (ledger_of w)"
    using assms(4) off by (intro ledger_step_refines) auto
  ultimately show ?thesis using ok(2) by simp
qed (simp_all)

text \<open>A concrete process, connected to a power daemon in \<open>good_env\<close> and a manager in \<open>F\<close>.\<close>

definition sample_env :: "ems_env \<Rightarrow> item list app_env" where
  "sample_env F = \<lparr>a_sm = published_after 0 9, a_parcel = list_parcel,
     a_pm = (\<lambda>_. loopback list_parcel (Bne_onTransact list_parcel base_unknown good_env some_client)),
     a_ms = (\<lambda>_. loopback list_parcel (served (Bnems_onTransact list_parcel base_unknown F some_client))),
     a_cb = 7, new_byte_array = (\<lambda>_. True)\<rparr>"

definition sample_app :: app where
  "sample_app = \<lparr>pm = client_start epm_init, ms = client_start ems_init\<rparr>"

lemma sample_connected: "connected (sample_env F) (\<lambda>p. p) base_unknown good_env F some_client"
  by (simp add: connected_def sample_env_def list_parcel_fifo loopback_delivers)

lemma sample_on: "\<not> is_neg (fst (app_powerOn (sample_env F) sample_app))"
proof -
  have "fst (ensure_proxy (a_sm (sample_env F)) esePMerviceName (pm sample_app)) = Some 9"
    by (simp add: sample_env_def sample_app_def client_start_def published_now)
  then have "fst (app_powerOn (sample_env F) sample_app) = 1"
    using app_power_world(1) [OF sample_connected, of F sample_app] first_on
    by (simp add: sample_env_def sample_app_def client_start_def)
  then show ?thesis by simp
qed

lemma sample_found:
  "fst (ensure_proxy (a_sm (sample_env F)) eseManagerServiceName (ms sample_app)) \<noteq> None"
  by (simp add: sample_env_def sample_app_def client_start_def published_now)

text \<open>C25.  Reading the CPLC gives back what it takes: whatever the TEE, the service manager
  and the secure element do, when \<open>native_eseGetCplc\<close> or \<open>native_eseValidateChipLegality\<close> returns,
  the power daemon counts for every process as many uses as before.\<close>

theorem native_calls_give_back:
  assumes "connected X items B E F c" and "reaches E n (world (pm s))" and "n + 1 < 2 ^ 31 - 1"
  shows "(\<forall>x s'. native_eseGetCplc X s = (Inr x, s') \<longrightarrow>
      ledger_of (world (pm s')) = ledger_of (world (pm s))) \<and>
    (\<forall>x s'. native_eseValidateChipLegality X s = (Inr x, s') \<longrightarrow>
      ledger_of (world (pm s')) = ledger_of (world (pm s)))"
proof -
  have "ledger_of (world (pm s')) = ledger_of (world (pm s))" if r: "read_cplc X s = (Inr x, s')" for x s'
    using read_cplc_ledger [OF assms(1) r assms(2,3)] .
  then show ?thesis
    by (fastforce simp: native_eseGetCplc_def native_eseValidateChipLegality_def
        split: prod.splits sum.splits option.splits if_splits)
qed

subsection \<open>What the Java side sees\<close>

lemma app_cplc_found:
  assumes "connected X items B E F c"
    and "fst (ensure_proxy (a_sm X) eseManagerServiceName (ms s)) \<noteq> None"
    and "fst (getEseCplc F (Some (replicate 100 0)) (Some 100) (world (ms s))) = Inr (NO_ERROR, Some bs, Some n)"
  shows "fst (app_getEseCplc X (Some (replicate 100 0)) (Some 100) s) = Inr (NO_ERROR, Some bs, Some n)"
proof -
  obtain b s1 where e: "ensure_proxy (a_sm X) eseManagerServiceName (ms s) = (Some b, s1)"
    using assms(2) by (metis not_None_eq prod.collapse)
  have P: "parcel_fifo (a_parcel X) items"
    and D: "\<And>b. delivers (a_parcel X) items (served (Bnems_onTransact (a_parcel X) B F c)) (a_ms X b)"
    using assms(1) by (simp_all add: connected_def)
  obtain w where g: "getEseCplc F (Some (replicate 100 0)) (Some 100) (world (ms s)) =
      (Inr (NO_ERROR, Some bs, Some n), w)"
    using assms(3) by (metis prod.collapse)
  from Bpems_getEseCplc_service [OF P D, of "replicate 100 0" 100 b "world (ms s)"] g
  have "fst (Bpems_getEseCplc (a_parcel X) (a_ms X b) (Some (replicate 100 0)) (Some 100) (world (ms s))) =
      Inr (NO_ERROR, Some bs, Some n)" by simp
  then show ?thesis
    by (simp add: app_getEseCplc_def ese_getEseCplc_def split_beta via_proxy_found [OF e])
qed

lemma read_cplc_found:
  assumes "connected X items B E F c" and "\<not> is_neg (fst (app_powerOn X s))"
    and "fst (ensure_proxy (a_sm X) eseManagerServiceName (ms s)) \<noteq> None"
    and "fst (getEseCplc F (Some (replicate 100 0)) (Some 100) (world (ms s))) = Inr (NO_ERROR, Some bs, Some n)"
  shows "\<exists>s'. read_cplc X s = (Inr (Some (bs, n)), s')"
proof -
  have "ms (snd (app_powerOn X s)) = ms s" by (simp add: app_powerOn_def split_beta)
  then have "fst (app_getEseCplc X (Some (replicate 100 0)) (Some 100) (snd (app_powerOn X s))) =
      Inr (NO_ERROR, Some bs, Some n)"
    using assms(3,4) by (intro app_cplc_found [OF assms(1)]) simp_all
  then show ?thesis
    using assms(2) by (auto simp: read_cplc_def split_beta Let_def)
qed

text \<open>C38.  The chip check, end to end: with both services connected and a working TEE, when
  the trusted application answers the CPLC command with the \<open>m\<close> bytes \<open>ws\<close>, at most 100,
  \<open>native_eseGetCplc\<close> returns exactly \<open>ws\<close>, and \<open>native_eseValidateChipLegality\<close> returns true exactly
  when there are at least 47 bytes and bytes 3 and 4 are \<open>47 90\<close>.\<close>

theorem chip_check:
  assumes "connected X items B E F c" and "\<not> is_neg (fst (app_powerOn X s))"
    and "fst (ensure_proxy (a_sm X) eseManagerServiceName (ms s)) \<noteq> None"
    and "tee_willing (ems_tee F)" and "new_byte_array X (length ws)"
    and "\<And>tr. tee_invoke (ems_tee F) tr HAL_TRANSMIT [0x80, 0xCA, 0x9F, 0x7F, 0x00] 100 = (0, ws, m)"
    and "length ws = unat m" and "unat m \<le> 100"
  shows "fst (native_eseGetCplc X s) = Inr (Some ws) \<and>
    fst (native_eseValidateChipLegality X s) = Inr (47 \<le> unat m \<and> ws ! 3 = 0x47 \<and> ws ! 4 = 0x90)"
proof -
  let ?bs = "ws @ drop (unat m) (replicate 100 0)"
  have "fst (getEseCplc F (Some (replicate 100 0)) (Some 100) (world (ms s))) = Inr (NO_ERROR, Some ?bs, Some m)"
    using ca_getEseCplc_answer [OF assms(4) _ assms(6), of "replicate 100 0" "tee_log (world (ms s))"] assms(7,8)
    by (simp add: getEseCplc_def split_beta)
  then obtain s' where r: "read_cplc X s = (Inr (Some (?bs, m)), s')"
    using read_cplc_found [OF assms(1-3)] by blast
  have "mem_read ?bs 0 (unat m) = Inr ws" using assms(7,8) by (simp add: mem_read_def)
  moreover have "47 \<le> unat m \<Longrightarrow> mem_read ?bs 3 2 = Inr [ws ! 3, ws ! 4]"
    using assms(7,8) by (simp add: mem_read_def take_drop_two)
  moreover have "m < 47 \<longleftrightarrow> \<not> 47 \<le> unat m" by (auto simp: word_less_nat_alt)
  ultimately show ?thesis
    using r assms(5,7) by (simp add: native_eseGetCplc_def native_eseValidateChipLegality_def)
qed

definition cplc_bytes :: "u8 list" where
  "cplc_bytes = [0x9F, 0x7F, 0x2A, 0x47, 0x90] @ replicate 42 0"

definition cplc_ems :: ems_env where
  "cplc_ems = failing_ems\<lparr>ems_tee := echo_tee\<lparr>tee_invoke := \<lambda>_ _ _ _. (0, cplc_bytes, 47)\<rparr>\<rparr>"

lemma chip_check_witness:
  "fst (native_eseGetCplc (sample_env cplc_ems) sample_app) = Inr (Some cplc_bytes) \<and>
   fst (native_eseValidateChipLegality (sample_env cplc_ems) sample_app) = Inr True"
proof -
  have "tee_willing (ems_tee cplc_ems)"
    by (simp add: tee_willing_def cplc_ems_def echo_tee_def)
  moreover have "new_byte_array (sample_env cplc_ems) (length cplc_bytes)"
    by (simp add: sample_env_def)
  moreover have "tee_invoke (ems_tee cplc_ems) tr HAL_TRANSMIT [0x80, 0xCA, 0x9F, 0x7F, 0x00] 100 = (0, cplc_bytes, 47)" for tr
    by (simp add: cplc_ems_def)
  moreover have "length cplc_bytes = unat (47 :: u32)" "unat (47 :: u32) \<le> 100"
    "47 \<le> unat (47 :: u32) \<and> cplc_bytes ! 3 = 0x47 \<and> cplc_bytes ! 4 = 0x90"
    by (simp_all add: cplc_bytes_def)
  ultimately show ?thesis
    using chip_check [OF sample_connected sample_on sample_found, of cplc_ems cplc_bytes 47] by simp
qed

lemma failure_reads_as_zeros:
  assumes "connected X items B E F c" and "\<not> is_neg (fst (app_powerOn X s))"
    and "fst (ensure_proxy (a_sm X) eseManagerServiceName (ms s)) \<noteq> None"
    and "tee_willing (ems_tee F)" and "new_byte_array X 100" and "0xFFFF0000 \<le> r"
    and "\<And>tr inp out. fst (tee_invoke (ems_tee F) tr HAL_TRANSMIT inp out) = r"
  shows "fst (native_eseGetCplc X s) = Inr (Some (replicate 100 0)) \<and>
    fst (native_eseValidateChipLegality X s) = Inr False"
proof -
  have "r \<noteq> 0" "\<not> is_neg (- r)"
    using assms(6) is_neg_minus [of r] by (auto simp: word_le_def)
  moreover obtain ws m where "tee_invoke (ems_tee F) (tee_ready 5 100 (tee_log (world (ms s)))) HAL_TRANSMIT
      [0x80, 0xCA, 0x9F, 0x7F, 0x00] 100 = (r, ws, m)"
    using assms(7) by (metis prod.collapse)
  ultimately have "fst (getEseCplc F (Some (replicate 100 0)) (Some 100) (world (ms s))) =
      Inr (NO_ERROR, Some (replicate 100 0), Some 100)"
    using ca_getEseCplc_answer [OF assms(4), of 100 "tee_log (world (ms s))" r ws m "replicate 100 0"]
    by (simp add: getEseCplc_def split_beta)
  then obtain s' where "read_cplc X s = (Inr (Some (replicate 100 0, 100)), s')"
    using read_cplc_found [OF assms(1-3)] by blast
  moreover have "mem_read (replicate 100 (0 :: u8)) 3 2 = Inr [0, 0]"
    by (simp add: mem_read_def numeral_2_eq_2)
  ultimately show ?thesis
    using assms(5) by (simp add: native_eseGetCplc_def native_eseValidateChipLegality_def mem_read_def)
qed

text \<open>A failure of the trusted application is not seen by the Java side as one: when
  every invocation fails with a GlobalPlatform error, \<open>native_eseGetCplc\<close> returns an array of
  100 zero bytes; the chip check at least answers false.\<close>

lemma tee_failure_reads_as_zeros:
  assumes "connected X items B E F c" and "\<not> is_neg (fst (app_powerOn X s))"
    and "fst (ensure_proxy (a_sm X) eseManagerServiceName (ms s)) \<noteq> None"
    and "tee_willing (ems_tee F)" and "new_byte_array X 100" and "0xFFFF0000 \<le> r"
    and "\<And>tr inp out. fst (tee_invoke (ems_tee F) tr HAL_TRANSMIT inp out) = r"
  shows "fst (native_eseGetCplc X s) = Inr (Some (replicate 100 0)) \<and>
    fst (native_eseValidateChipLegality X s) = Inr False"
  using failure_reads_as_zeros [OF assms] .

lemma sample_failure:
  "fst (native_eseGetCplc (sample_env failing_ems) sample_app) = Inr (Some (replicate 100 0))"
proof -
  have "tee_willing (ems_tee failing_ems)" "new_byte_array (sample_env failing_ems) 100"
    "fst (tee_invoke (ems_tee failing_ems) tr HAL_TRANSMIT inp out) = 0xFFFF000E" for tr inp out
    by (simp_all add: tee_willing_def failing_ems_def failing_tee_def echo_tee_def sample_env_def)
  from failure_reads_as_zeros [OF sample_connected sample_on sample_found this(1,2) _ this(3)]
  show ?thesis by (simp add: word_le_nat_alt)
qed

lemma tee_failure_reads_as_zeros_witness:
  "fst (native_eseGetCplc (sample_env failing_ems) sample_app) = Inr (Some (replicate 100 0))"
proof -
  have "tee_willing (ems_tee failing_ems)" "new_byte_array (sample_env failing_ems) 100"
    "fst (tee_invoke (ems_tee failing_ems) tr HAL_TRANSMIT inp out) = 0xFFFF000E" for tr inp out
    by (simp_all add: tee_willing_def failing_ems_def failing_tee_def echo_tee_def sample_env_def)
  from tee_failure_reads_as_zeros [OF sample_connected sample_on sample_found this(1,2) _ this(3)]
  show ?thesis by (simp add: word_le_nat_alt)
qed

lemma native_calls_give_back_witness:
  "\<exists>s'. native_eseGetCplc (sample_env failing_ems) sample_app = (Inr (Some (replicate 100 0)), s') \<and>
     ledger_of (world (pm s')) = ledger_of epm_init"
proof -
  obtain s' where r: "native_eseGetCplc (sample_env failing_ems) sample_app = (Inr (Some (replicate 100 0)), s')"
    using sample_failure by (metis prod.collapse)
  have "ledger_of (world (pm s')) = ledger_of (world (pm sample_app))"
    using native_calls_give_back [OF sample_connected, of 0 sample_app failing_ems] r reaches.start
    by (simp add: sample_app_def client_start_def)
  with r show ?thesis by (simp add: sample_app_def client_start_def)
qed

end
