(* ===== verification/CplcTest.thy ===== *)
theory CplcTest
  imports Jni
begin

text \<open>
  \<open>eseManager_fw/jni/getCplcTest.cpp\<close>: a stress test that reads the CPLC from several threads
  until it is interrupted.  A thread's loop runs here without interference from the others; all
  threads together are in \<open>CplcThreads\<close>.
\<close>

text \<open>\<open>getCplC\<close> returns \<open>NULL\<close>, that is 0, on failure and the length otherwise.\<close>

definition getCplC :: "'p app_env \<Rightarrow> app \<Rightarrow> i32 outcome \<times> app" where
  "getCplC X s =
     (let (ret, s) = app_powerOn X s in
      if is_neg ret then (Inr 0, s)
      else case app_getEseCplc X (Some (replicate 100 0)) (Some 100) s of
        (Inl f, s) \<Rightarrow> (Inl f, s)
      | (Inr (ret, r_cplc, len), s) \<Rightarrow>
          (let s = snd (app_powerOff X s) in if is_neg ret then (Inr 0, s) else (Inr (the len), s)))"

text \<open>
  \<open>getCplcThread\<close>: the count is the one in the thread's \<open>thread_info\<close>; \<open>quit\<close> answers whether
  \<open>g_quit\<close>, which the signal handler sets, is set when the loop tests it with this count left.
\<close>

fun getCplcThread :: "'p app_env \<Rightarrow> (nat \<Rightarrow> bool) \<Rightarrow> nat \<Rightarrow> app \<Rightarrow> nat outcome \<times> app" where
  "getCplcThread X quit 0 s = (Inr 0, s)"
| "getCplcThread X quit (Suc count) s =
     (if quit (Suc count) then (Inr (Suc count), s)
      else case getCplC X s of (Inl f, s) \<Rightarrow> (Inl f, s)
        | (Inr _, s) \<Rightarrow> getCplcThread X quit count s)"

text \<open>The number of threads: three by default, at most 100.\<close>

definition thread_count :: "i32 option \<Rightarrow> i32" where
  "thread_count arg = (case arg of None \<Rightarrow> 3 | Some n \<Rightarrow> if 100 < sint n then 100 else n)"

definition thread_start_count :: nat where "thread_start_count = 1000000"

lemma getCplC_read:
  "getCplC X s = (Inr r, s') \<Longrightarrow> \<exists>x. read_cplc X s = (Inr x, s')"
  by (auto simp: getCplC_def read_cplc_def Let_def split: prod.splits sum.splits if_splits)

lemma read_cplc_reaches:
  assumes "connected X items B E F c" and "read_cplc X s = (Inr x, s')" and "reaches E n (world (pm s))"
  shows "\<exists>n'\<le>n + 2. reaches E n' (world (pm s'))"
  using read_cplc_world [OF assms(1,2)]
proof (elim disjE exE conjE)
  assume "world (pm s') = world (pm s)"
  with assms(3) show ?thesis by (intro exI [of _ n]) simp
next
  fix ret assume "powerOn E c (Some (a_cb X)) (world (pm s)) = (ret, world (pm s'))"
  with reaches.step [OF assms(3), of "ReqPowerOn c (Some (a_cb X))"] show ?thesis
    by (intro exI [of _ "Suc n"]) simp
next
  fix ret w ret'
  assume "powerOn E c (Some (a_cb X)) (world (pm s)) = (ret, w)" "powerOff E c w = (ret', world (pm s'))"
  then have "reaches E (Suc (Suc n)) (world (pm s'))"
    using reaches.step [OF reaches.step [OF assms(3), of "ReqPowerOn c (Some (a_cb X))" ret w], of "ReqPowerOff c"]
    by simp
  then show ?thesis by (intro exI [of _ "n + 2"]) simp
qed

text \<open>A test thread always ends: after at most \<open>count\<close> requests, earlier only when it is
  told to quit (or when a request crashes), and it leaves the daemon's use counts as they were.\<close>

lemma test_thread_ends:
  assumes "connected X items B E F c" and "reaches E n (world (pm s))" and "n + 2 * count < 2 ^ 31 - 1"
    and "getCplcThread X quit count s = (Inr k, s')"
  shows "k \<le> count \<and> (k = 0 \<or> quit k) \<and> ledger_of (world (pm s')) = ledger_of (world (pm s))"
  using assms(2-4)
proof (induction count arbitrary: n s)
  case 0
  then show ?case by simp
next
  case (Suc count)
  show ?case
  proof (cases "quit (Suc count)")
    case True
    with Suc.prems show ?thesis by simp
  next
    case False
    with Suc.prems(3) obtain r s1 where g: "getCplC X s = (Inr r, s1)"
      and l: "getCplcThread X quit count s1 = (Inr k, s')"
      by (auto split: prod.splits sum.splits)
    obtain x where r: "read_cplc X s = (Inr x, s1)" using getCplC_read [OF g] by blast
    obtain n' where n': "n' \<le> n + 2" "reaches E n' (world (pm s1))"
      using read_cplc_reaches [OF assms(1) r Suc.prems(1)] by blast
    have "ledger_of (world (pm s1)) = ledger_of (world (pm s))"
      using read_cplc_ledger [OF assms(1) r Suc.prems(1)] Suc.prems(2) by simp
    with Suc.IH [OF n'(2) _ l] n'(1) Suc.prems(2) show ?thesis by auto
  qed
qed

lemma test_thread_ends_witness:
  "getCplcThread (sample_env failing_ems) (\<lambda>_. True) (Suc (Suc (Suc 0))) sample_app = (Inr (Suc (Suc (Suc 0))), sample_app) \<and>
   ledger_of (world (pm sample_app)) = ledger_of epm_init"
proof -
  have "reaches good_env 0 (world (pm sample_app))"
    by (simp add: sample_app_def client_start_def reaches.start)
  moreover have "getCplcThread (sample_env failing_ems) (\<lambda>_. True) (Suc (Suc (Suc 0))) sample_app = (Inr (Suc (Suc (Suc 0))), sample_app)"
    by simp
  ultimately show ?thesis
    using test_thread_ends [OF sample_connected, of 0 sample_app "Suc (Suc (Suc 0))" failing_ems "\<lambda>_. True" "Suc (Suc (Suc 0))" sample_app]
    by (simp add: sample_app_def client_start_def)
qed

end
