(* ===== verification/CplcThreads.thy ===== *)
theory CplcThreads
  imports CplcTest PowerThreads PowerRaces
begin

text \<open>
  The whole stress test \<open>eseManager_fw/jni/getCplcTest.cpp\<close>: \<open>main\<close> starts the threads and waits
  for them, the threads run \<open>getCplcThread\<close> in any interleaving, an interrupt may come at any
  time, and other processes use the power daemon in between.

  A call of a wrapper library is one step: the stub of the daemon lets one call in at a time
  (\<open>WrapperRace\<close> has the steps of the wrapper's own start).  The deaths of processes are handled
  by other threads of the daemon without its mutex, so \<open>binderDied\<close> moves in the steps of
  \<open>PowerRaces\<close>, any number of deaths side by side, with calls of anybody between them; their steps
  inside a single \<open>powerOn\<close> or \<open>powerOff\<close> are the subject of \<open>PowerRaces\<close>.
\<close>

lemma thread_count_range: "nat (sint (thread_count arg)) \<le> 100"
  by (cases arg) (auto simp: thread_count_def)

subsection \<open>A thread\<close>

text \<open>Where a thread is in its loop: at the test of the loop, before each of the three calls of
  \<open>getCplC\<close>, before the decrement, or done.\<close>

datatype thread_point = Testing | Calling | Reading | Releasing | Counting | Done_thread

record thread_info =
  ti_count :: u32
  ti_point :: thread_point

definition inside_point :: "thread_info \<Rightarrow> bool" where
  "inside_point ti \<longleftrightarrow> ti_point ti \<in> {Reading, Releasing}"

definition thread_step :: "'p app_env \<Rightarrow> bool \<Rightarrow> thread_info \<Rightarrow> app \<Rightarrow> (thread_info \<times> app) outcome" where
  "thread_step X quit ti s =
     (case ti_point ti of
        Testing \<Rightarrow> Inr (ti\<lparr>ti_point := (if ti_count ti \<noteq> 0 \<and> \<not> quit then Calling else Done_thread)\<rparr>, s)
      | Calling \<Rightarrow> (let (ret, s) = app_powerOn X s
          in Inr (ti\<lparr>ti_point := (if is_neg ret then Counting else Reading)\<rparr>, s))
      | Reading \<Rightarrow> (case app_getEseCplc X (Some (replicate 100 0)) (Some 100) s of
          (Inl f, s) \<Rightarrow> Inl f | (Inr _, s) \<Rightarrow> Inr (ti\<lparr>ti_point := Releasing\<rparr>, s))
      | Releasing \<Rightarrow> Inr (ti\<lparr>ti_point := Counting\<rparr>, snd (app_powerOff X s))
      | Counting \<Rightarrow> Inr (ti\<lparr>ti_count := ti_count ti - 1, ti_point := Testing\<rparr>, s)
      | Done_thread \<Rightarrow> Inr (ti, s))"

text \<open>Without interference the steps of a thread are the call of \<open>getCplC\<close>.\<close>

fun thread_steps :: "'p app_env \<Rightarrow> nat \<Rightarrow> thread_info \<Rightarrow> app \<Rightarrow> (thread_info \<times> app) outcome" where
  "thread_steps X 0 ti s = Inr (ti, s)"
| "thread_steps X (Suc n) ti s = (if ti_point ti \<in> {Testing, Counting} then Inr (ti, s)
     else case thread_step X False ti s of Inl f \<Rightarrow> Inl f | Inr (ti, s) \<Rightarrow> thread_steps X n ti s)"

lemma thread_alone:
  assumes "ti_point ti = Calling"
  shows "thread_steps X 3 ti s = (case getCplC X s of (Inl f, _) \<Rightarrow> Inl f
     | (Inr _, s') \<Rightarrow> Inr (ti\<lparr>ti_point := Counting\<rparr>, s'))"
  using assms
  by (auto simp: numeral_3_eq_3 thread_step_def getCplC_def split_beta Let_def split: sum.splits prod.splits)

subsection \<open>The process\<close>

text \<open>Where \<open>main\<close> is: starting threads, waiting for the one with the given index, or gone,
  in order or after a failure.\<close>

datatype main_point = Creating | Joining nat | Left | Aborted

record test =
  tinfo :: "thread_info list"
  main_at :: main_point
  g_quit :: bool
  proc :: app
  dead :: deaths

definition alive :: "test \<Rightarrow> bool" where
  "alive t \<longleftrightarrow> main_at t \<notin> {Left, Aborted}"

definition fresh_thread :: thread_info where
  "fresh_thread = \<lparr>ti_count = word_of_nat thread_start_count, ti_point = Testing\<rparr>"

text \<open>
  The steps of the program itself: \<open>N\<close> is the number of threads (\<open>thread_count\<close> of the argument, where
  a negative number starts none), \<open>ok i\<close> tells whether the start of
  thread \<open>i\<close> succeeds; when it fails, \<open>main\<close> returns and the process ends with all its threads.  The
  result of \<open>calloc\<close> is not tested: a null pointer ends the process too, and so does a fault in a
  thread.
\<close>

inductive own_step :: "'p app_env \<Rightarrow> nat \<Rightarrow> (nat \<Rightarrow> bool) \<Rightarrow> test \<Rightarrow> test \<Rightarrow> bool" for X N ok where
  no_memory: "main_at t = Creating \<Longrightarrow> tinfo t = [] \<Longrightarrow> 0 < N \<Longrightarrow> own_step X N ok t (t\<lparr>main_at := Aborted\<rparr>)"
| create: "main_at t = Creating \<Longrightarrow> length (tinfo t) < N \<Longrightarrow> ok (length (tinfo t)) \<Longrightarrow>
    own_step X N ok t (t\<lparr>tinfo := tinfo t @ [fresh_thread]\<rparr>)"
| create_fails: "main_at t = Creating \<Longrightarrow> length (tinfo t) < N \<Longrightarrow> \<not> ok (length (tinfo t)) \<Longrightarrow>
    own_step X N ok t (t\<lparr>main_at := Aborted\<rparr>)"
| created: "main_at t = Creating \<Longrightarrow> \<not> length (tinfo t) < N \<Longrightarrow> own_step X N ok t (t\<lparr>main_at := Joining 0\<rparr>)"
| join: "main_at t = Joining i \<Longrightarrow> i < N \<Longrightarrow> ti_point (tinfo t ! i) = Done_thread \<Longrightarrow>
    own_step X N ok t (t\<lparr>main_at := Joining (Suc i)\<rparr>)"
| return: "main_at t = Joining i \<Longrightarrow> \<not> i < N \<Longrightarrow>
    own_step X N ok t (t\<lparr>main_at := Left, proc := snd (app_getState X (proc t))\<rparr>)"
| run: "alive t \<Longrightarrow> i < length (tinfo t) \<Longrightarrow> ti_point (tinfo t ! i) \<noteq> Done_thread \<Longrightarrow>
    thread_step X (g_quit t) (tinfo t ! i) (proc t) = Inr (ti, s) \<Longrightarrow>
    own_step X N ok t (t\<lparr>tinfo := (tinfo t)[i := ti], proc := s\<rparr>)"
| crash: "alive t \<Longrightarrow> i < length (tinfo t) \<Longrightarrow> thread_step X (g_quit t) (tinfo t ! i) (proc t) = Inl f \<Longrightarrow>
    own_step X N ok t (t\<lparr>main_at := Aborted\<rparr>)"

text \<open>
  What happens around it: \<open>ese_powerOff_handler\<close> on an interrupt, requests of other processes to
  the power daemon, and the deaths the daemon hears of, the one of the process itself once it is
  gone: each begins at the first point of \<open>binderDied\<close> and is moved on by one step at a time.  The
  test and the threads of a dead process are over when its entry is erased.
\<close>

fun foreign :: "u32 \<Rightarrow> request \<Rightarrow> bool" where
  "foreign p (ReqPowerOn c cb) \<longleftrightarrow> calling_pid c \<noteq> p"
| "foreign p (ReqPowerOff c) \<longleftrightarrow> calling_pid c \<noteq> p"
| "foreign p (ReqKillall c) \<longleftrightarrow> calling_pid c \<noteq> p \<and> bad_uid (calling_uid c)"
| "foreign p (ReqDied n) \<longleftrightarrow> False"
| "foreign p _ \<longleftrightarrow> True"

definition set_daemon :: "epm \<Rightarrow> test \<Rightarrow> test" where
  "set_daemon w t = t\<lparr>proc := (proc t)\<lparr>pm := (pm (proc t))\<lparr>world := w\<rparr>\<rparr>\<rparr>"

definition daemon :: "test \<Rightarrow> epm" where "daemon t = world (pm (proc t))"

inductive around_step :: "epm_env \<Rightarrow> u32 \<Rightarrow> test \<Rightarrow> test \<Rightarrow> bool" for E p where
  interrupt: "alive t \<Longrightarrow> around_step E p t (t\<lparr>g_quit := True\<rparr>)"
| foreign: "epm_step E (daemon t) r ret w \<Longrightarrow> foreign p r \<Longrightarrow> around_step E p t (set_daemon w t)"
| dies: "mPid d = p \<longrightarrow> \<not> alive t \<Longrightarrow> around_step E p t (t\<lparr>dead := dead t @ [(d, DieErase)]\<rparr>)"
| buried: "i < length (dead t) \<Longrightarrow> dead t ! i = (d, x) \<Longrightarrow> die_step E d x (daemon t) = (x', w) \<Longrightarrow>
    around_step E p t ((set_daemon w t)\<lparr>dead := (dead t)[i := (d, x')],
      tinfo := (if mPid d = p \<and> x = DieErase then [] else tinfo t)\<rparr>)"

text \<open>\<open>test_runs n t\<close>: the test is in state \<open>t\<close> after \<open>n\<close> steps at most, those of the daemon before
  the test started included.  At the start its process has no uses, and the deaths that are being
  handled are those of others, a former process with its number included.\<close>

inductive test_runs :: "'p app_env \<Rightarrow> epm_env \<Rightarrow> caller \<Rightarrow> nat \<Rightarrow> (nat \<Rightarrow> bool) \<Rightarrow> nat \<Rightarrow> test \<Rightarrow> bool"
  for X E c N ok where
  at_start: "reaches E n (world (pm s)) \<Longrightarrow> ledger_of (world (pm s)) (calling_pid c) = 0 \<Longrightarrow>
    calling_pid c \<notin> dying ds \<Longrightarrow>
    test_runs X E c N ok n \<lparr>tinfo = [], main_at = Creating, g_quit = False, proc = s, dead = ds\<rparr>"
| own: "test_runs X E c N ok n t \<Longrightarrow> own_step X N ok t t' \<Longrightarrow> test_runs X E c N ok (Suc n) t'"
| around: "test_runs X E c N ok n t \<Longrightarrow> around_step E (calling_pid c) t t' \<Longrightarrow> test_runs X E c N ok (Suc n) t'"

text \<open>
  \<open>calm_runs\<close> are the runs in which nobody is registered while a death stands between its test of the
  registry and the request that cuts the power: no \<open>powerOn\<close> is served to its end in this gap, which
  nothing in the daemon rules out (\<open>death_cuts_next_session\<close>).
\<close>

definition calm :: "test \<Rightarrow> bool" where
  "calm t \<longleftrightarrow> (dying_at {DieNode, DiePower} (dead t) \<longrightarrow> pidsMap (daemon t) = [])"

inductive calm_runs :: "'p app_env \<Rightarrow> epm_env \<Rightarrow> caller \<Rightarrow> nat \<Rightarrow> (nat \<Rightarrow> bool) \<Rightarrow> nat \<Rightarrow> test \<Rightarrow> bool"
  for X E c N ok where
  calm_start: "reaches E n (world (pm s)) \<Longrightarrow> ledger_of (world (pm s)) (calling_pid c) = 0 \<Longrightarrow>
    calling_pid c \<notin> dying ds \<Longrightarrow> t = \<lparr>tinfo = [], main_at = Creating, g_quit = False, proc = s, dead = ds\<rparr> \<Longrightarrow>
    calm t \<Longrightarrow> calm_runs X E c N ok n t"
| calm_own: "calm_runs X E c N ok n t \<Longrightarrow> own_step X N ok t t' \<Longrightarrow> calm t' \<Longrightarrow> calm_runs X E c N ok (Suc n) t'"
| calm_around: "calm_runs X E c N ok n t \<Longrightarrow> around_step E (calling_pid c) t t' \<Longrightarrow> calm t' \<Longrightarrow>
    calm_runs X E c N ok (Suc n) t'"

lemma calm_runs_test: "calm_runs X E c N ok n t \<Longrightarrow> test_runs X E c N ok n t \<and> calm t"
  by (induction rule: calm_runs.induct) (auto intro: test_runs.intros)

text \<open>The process is not reported dead while it lives.\<close>

lemma own_alive: "own_step X N ok t t' \<Longrightarrow> alive t \<and> dead t' = dead t"
  by (induction rule: own_step.induct) (auto simp: alive_def)

lemma dying_append [simp]: "dying [] = {}" "dying (ds @ [(d, x)]) = insert (mPid d) (dying ds)"
  by (auto simp: dying_def)

lemma own_death: "test_runs X E c N ok n t \<Longrightarrow> calling_pid c \<in> dying (dead t) \<Longrightarrow> \<not> alive t"
proof (induction rule: test_runs.induct)
  case (around n t t')
  from around.hyps(2) around.IH around.prems show ?case
  proof (induction rule: around_step.induct)
    case (buried i t d x x' w)
    then have "dying ((dead t)[i := (d, x')]) = dying (dead t)" by (intro dying_update) simp_all
    with buried show ?case by (simp add: alive_def set_daemon_def)
  qed (auto simp: alive_def set_daemon_def)
qed (auto dest!: own_alive)

subsection \<open>The wrapper calls of a thread\<close>

lemma call_on:
  assumes "connected X items B E F c" and "app_powerOn X s = (ret, s')"
  shows "is_neg ret \<and> world (pm s') = world (pm s) \<or> powerOn E c (Some (a_cb X)) (world (pm s)) = (ret, world (pm s'))"
  using app_power_world(1) [OF assms(1), of s] assms(2)
  by (cases "fst (ensure_proxy (a_sm X) esePMerviceName (pm s))") simp_all

lemma call_on_proxy:
  assumes "app_powerOn X s = (ret, s')"
  shows "\<not> is_neg ret \<Longrightarrow> g_proxy (pm s') \<noteq> None" "g_proxy (pm s) \<noteq> None \<Longrightarrow> g_proxy (pm s') \<noteq> None"
proof -
  show "\<not> is_neg ret \<Longrightarrow> g_proxy (pm s') \<noteq> None" using app_powerOn_proxy [of X s] assms by simp
  assume "g_proxy (pm s) \<noteq> None"
  then obtain b where e: "ensure_proxy (a_sm X) esePMerviceName (pm s) = (Some b, pm s)"
    using ensure_proxy_hit by blast
  have "g_proxy (pm (snd (app_powerOn X s))) = Some b"
    by (simp add: app_powerOn_def wrap_powerOn_def split_beta via_proxy_found [OF e])
  with assms show "g_proxy (pm s') \<noteq> None" by simp
qed

lemma call_off:
  assumes "connected X items B E F c" and "g_proxy (pm s) \<noteq> None"
  shows "g_proxy (pm (snd (app_powerOff X s))) \<noteq> None \<and>
    (\<exists>ret. powerOff E c (world (pm s)) = (ret, world (pm (snd (app_powerOff X s)))))"
proof -
  obtain b where e: "ensure_proxy (a_sm X) esePMerviceName (pm s) = (Some b, pm s)"
    using ensure_proxy_hit assms(2) by blast
  have "g_proxy (pm (snd (app_powerOff X s))) = Some b"
    by (simp add: app_powerOff_def wrap_powerOff_def split_beta via_proxy_found [OF e])
  then show ?thesis using app_power_world(2) [OF assms(1), of s] e by (auto simp: prod_eq_iff)
qed

lemma call_state:
  assumes "connected X items B E F c"
  shows "world (pm (snd (app_getState X s))) = world (pm s) \<or>
    (\<exists>ret. getState E (world (pm s)) = (ret, world (pm (snd (app_getState X s)))))"
proof -
  obtain x s1 where e: "ensure_proxy (a_sm X) esePMerviceName (pm s) = (x, s1)" by fastforce
  have P: "parcel_fifo (a_parcel X) items"
    and D: "\<And>b. delivers (a_parcel X) items (Bne_onTransact (a_parcel X) B E c) (a_pm X b)"
    using assms by (simp_all add: connected_def)
  have eq: "Bp_getState (a_parcel X) (a_pm X b) w = getState E w" for b w
    using Bp_transparent [OF P D] by blast
  show ?thesis
  proof (cases x)
    case None
    with e have n: "ensure_proxy (a_sm X) esePMerviceName (pm s) = (None, s1)" by simp
    show ?thesis
      by (simp add: app_getState_def wrap_getState_def split_beta via_proxy_lost [OF n])
  next
    case (Some b)
    with e have "ensure_proxy (a_sm X) esePMerviceName (pm s) = (Some b, s1)" by simp
    then have "world (pm (snd (app_getState X s))) = snd (getState E (world (pm s)))"
      by (simp add: app_getState_def wrap_getState_def split_beta via_proxy_found eq)
    then show ?thesis by (metis prod.collapse)
  qed
qed

text \<open>What a step of a thread does to the daemon.\<close>

lemma thread_step_effect:
  assumes "connected X items B E F c" and "thread_step X quit ti s = Inr (ti', s')"
  obtains (quiet) "world (pm s') = world (pm s)" "inside_point ti' = inside_point ti"
      "g_proxy (pm s) \<noteq> None \<Longrightarrow> g_proxy (pm s') \<noteq> None"
  | (refused) ret where "powerOn E c (Some (a_cb X)) (world (pm s)) = (ret, world (pm s'))" "is_neg ret"
      "\<not> inside_point ti" "\<not> inside_point ti'" "g_proxy (pm s) \<noteq> None \<Longrightarrow> g_proxy (pm s') \<noteq> None"
  | (entered) ret where "powerOn E c (Some (a_cb X)) (world (pm s)) = (ret, world (pm s'))" "\<not> is_neg ret"
      "\<not> inside_point ti" "inside_point ti'" "g_proxy (pm s') \<noteq> None"
  | (left) "inside_point ti" "\<not> inside_point ti'" "s' = snd (app_powerOff X s)"
proof (cases "ti_point ti")
  case Calling
  obtain ret where on: "app_powerOn X s = (ret, s')" and ti': "ti' = ti\<lparr>ti_point := (if is_neg ret then Counting else Reading)\<rparr>"
    using assms(2) Calling by (auto simp: thread_step_def split: prod.splits)
  show thesis
  proof (cases "is_neg ret")
    case True
    then show thesis
      using call_on [OF assms(1) on] call_on_proxy [OF on] Calling ti' quiet refused by (auto simp: inside_point_def)
  next
    case False
    then show thesis
      using call_on [OF assms(1) on] call_on_proxy [OF on] Calling ti' entered by (auto simp: inside_point_def)
  qed
next
  case Reading
  then have "pm s' = pm s" "inside_point ti' = inside_point ti"
    using assms(2) app_getEseCplc_pm [of X "Some (replicate 100 0)" "Some 100" s]
    by (auto simp: thread_step_def inside_point_def split: prod.splits sum.splits)
  then show thesis using quiet by simp
next
  case Releasing
  then show thesis using assms(2) left by (auto simp: thread_step_def inside_point_def)
qed (use assms(2) quiet in \<open>auto simp: thread_step_def inside_point_def\<close>)

lemma daemon_request:
  assumes "reg_inv n w" and "epm_step E w r ret w'" and "n < 2 ^ 31 - 1"
  shows "reg_inv (Suc n) w' \<and> ledger_of w' = ledger_step r ret (ledger_of w)"
  using reg_inv_step [OF assms(2,1,3)] ledger_step_refines [OF assms(2,1,3)] by simp

lemma foreign_ledger: "foreign p r \<Longrightarrow> ledger_step r ret L p = L p"
  by (cases r) auto

subsection \<open>The invariant\<close>

definition inside_count :: "thread_info list \<Rightarrow> nat" where
  "inside_count ts = length (filter inside_point ts)"

lemma inside_count_update:
  "i < length ts \<Longrightarrow> inside_count (ts[i := ti]) + (if inside_point (ts ! i) then 1 else 0) =
     inside_count ts + (if inside_point ti then 1 else 0)"
proof (induction ts arbitrary: i)
  case (Cons t ts)
  then show ?case by (cases i) (auto simp: inside_count_def split: if_splits)
qed simp

lemma inside_count_pos: "0 < inside_count ts \<longleftrightarrow> (\<exists>ti\<in>set ts. inside_point ti)"
  by (auto simp: inside_count_def filter_empty_conv)

text \<open>The daemon counts the threads that are inside, and these may call it.\<close>

definition uses_inv :: "caller \<Rightarrow> nat \<Rightarrow> test \<Rightarrow> bool" where
  "uses_inv c n t \<longleftrightarrow> reg_inv n (daemon t) \<and>
     ledger_of (daemon t) (calling_pid c) = inside_count (tinfo t) \<and>
     (0 < inside_count (tinfo t) \<longrightarrow> \<not> bad_uid (calling_uid c) \<and> g_proxy (pm (proc t)) \<noteq> None)"

lemma reg_inv_Suc: "reg_inv n s \<Longrightarrow> reg_inv (Suc n) s"
  by (auto simp: reg_inv_def intro: map_ok_Suc)

lemma uses_run:
  assumes "connected X items B E F c" and "uses_inv c n t" and "n < 2 ^ 31 - 1" and "i < length (tinfo t)"
    and "thread_step X quit (tinfo t ! i) (proc t) = Inr (ti, s)"
  shows "uses_inv c (Suc n) (t\<lparr>tinfo := (tinfo t)[i := ti], proc := s\<rparr>)"
proof -
  note inv = assms(2) [unfolded uses_inv_def daemon_def]
  note cnt = inside_count_update [OF assms(4), of ti]
  have pos: "inside_point (tinfo t ! i) \<Longrightarrow> 0 < inside_count (tinfo t)"
    using assms(4) by (auto simp: inside_count_pos)
  from assms(1,5) show ?thesis
  proof (cases rule: thread_step_effect)
    case quiet
    then show ?thesis using inv cnt by (auto simp: uses_inv_def daemon_def intro: reg_inv_Suc)
  next
    case (refused ret)
    have "epm_step E (world (pm (proc t))) (ReqPowerOn c (Some (a_cb X))) ret (world (pm s))" using refused(1) by simp
    from daemon_request [OF _ this assms(3)] inv refused cnt show ?thesis
      by (auto simp: uses_inv_def daemon_def)
  next
    case (entered ret)
    have "epm_step E (world (pm (proc t))) (ReqPowerOn c (Some (a_cb X))) ret (world (pm s))" using entered(1) by simp
    from daemon_request [OF _ this assms(3)] inv entered cnt granted [OF entered(1,2)] show ?thesis
      by (auto simp: uses_inv_def daemon_def)
  next
    case left
    have p: "\<not> bad_uid (calling_uid c)" "g_proxy (pm (proc t)) \<noteq> None" using inv pos left(1) by auto
    obtain ret where off: "powerOff E c (world (pm (proc t))) = (ret, world (pm s))" "g_proxy (pm s) \<noteq> None"
      using call_off [OF assms(1) p(2)] left(3) by auto
    then have "epm_step E (world (pm (proc t))) (ReqPowerOff c) ret (world (pm s))" by simp
    from daemon_request [OF _ this assms(3)] inv left(1,2) cnt p off(2) show ?thesis
      by (auto simp: uses_inv_def daemon_def)
  qed
qed

text \<open>\<open>main\<close> waits for the threads in order, and a thread that is inside its loop has rounds left.\<close>

definition join_inv :: "nat \<Rightarrow> test \<Rightarrow> bool" where
  "join_inv N t \<longleftrightarrow> length (tinfo t) \<le> N \<and>
     (\<forall>ti\<in>set (tinfo t). ti_point ti \<in> {Testing, Done_thread} \<or> ti_count ti \<noteq> 0) \<and>
     (case main_at t of
        Joining i \<Rightarrow> length (tinfo t) = N \<and> i \<le> N \<and> (\<forall>j<i. ti_point (tinfo t ! j) = Done_thread)
      | Left \<Rightarrow> \<forall>ti\<in>set (tinfo t). ti_point ti = Done_thread
      | _ \<Rightarrow> True)"

lemma thread_count_kept:
  assumes "thread_step X quit ti s = Inr (ti', s')" and "ti_point ti \<in> {Testing, Done_thread} \<or> ti_count ti \<noteq> 0"
  shows "ti_point ti' \<in> {Testing, Done_thread} \<or> ti_count ti' \<noteq> 0"
  using assms by (cases "ti_point ti") (auto simp: thread_step_def split: prod.splits sum.splits if_splits)

lemma join_own: "own_step X N ok t t' \<Longrightarrow> join_inv N t \<Longrightarrow> join_inv N t'"
proof (induction rule: own_step.induct)
  case (create t)
  then show ?case by (auto simp: join_inv_def fresh_thread_def)
next
  case (join t i)
  then show ?case by (auto simp: join_inv_def less_Suc_eq)
next
  case (return t i)
  then have "ti_point (tinfo t ! j) = Done_thread" if "j < length (tinfo t)" for j
    using that by (auto simp: join_inv_def)
  with return show ?case by (auto simp: join_inv_def in_set_conv_nth)
next
  case (run t i ti s)
  then have "ti_point ti \<in> {Testing, Done_thread} \<or> ti_count ti \<noteq> 0"
    by (intro thread_count_kept [OF run.hyps(4)]) (auto simp: join_inv_def)
  with run show ?case
    by (auto simp: join_inv_def alive_def nth_list_update dest!: set_update_subset_insert [THEN subsetD]
        split: main_point.splits)
qed (auto simp: join_inv_def)

lemma mem_own_death: "i < length ds \<Longrightarrow> ds ! i = (d, x) \<Longrightarrow> mPid d \<in> dying ds"
  by (metis mem_dying nth_mem)

lemma join_around:
  assumes "around_step E p t t'" and "p \<in> dying (dead t) \<longrightarrow> \<not> alive t" and "join_inv N t"
  shows "join_inv N t'"
  using assms
proof (induction rule: around_step.induct)
  case (buried i t d x x' w)
  then show ?case using mem_own_death [OF buried(1,2)]
    by (cases "mPid d = p") (auto simp: join_inv_def set_daemon_def alive_def split: main_point.splits)
qed (auto simp: join_inv_def set_daemon_def split: main_point.splits)

lemma runs_join: "test_runs X E c N ok n t \<Longrightarrow> join_inv N t"
proof (induction rule: test_runs.induct)
  case (around n t t')
  with own_death [OF around.hyps(1)] show ?case by (intro join_around [OF around.hyps(2)]) auto
qed (auto simp: join_own, simp add: join_inv_def)

lemma uses_quiet:
  "uses_inv c n t \<Longrightarrow> daemon t' = daemon t \<Longrightarrow> inside_count (tinfo t') = inside_count (tinfo t) \<Longrightarrow>
    g_proxy (pm (proc t')) = g_proxy (pm (proc t)) \<Longrightarrow> uses_inv c (Suc n) t'"
  by (auto simp: uses_inv_def intro: reg_inv_Suc)

lemma uses_own:
  assumes "connected X items B E F c" and "own_step X N ok t t'" and "uses_inv c n t" and "join_inv N t"
    and "n < 2 ^ 31 - 1"
  shows "uses_inv c (Suc n) t'"
  using assms(2-5)
proof (induction rule: own_step.induct)
  case (create t)
  then show ?case
    by (intro uses_quiet [of c n t]) (auto simp: daemon_def inside_count_def fresh_thread_def inside_point_def)
next
  case (return t i)
  then have "inside_count (tinfo t) = 0"
    by (auto simp: join_inv_def inside_count_def filter_empty_conv in_set_conv_nth inside_point_def)
  moreover have "reg_inv (Suc n) (world (pm (snd (app_getState X (proc t))))) \<and>
      ledger_of (world (pm (snd (app_getState X (proc t))))) = ledger_of (daemon t)"
    using call_state [OF assms(1), of "proc t"]
  proof (elim disjE exE)
    fix ret assume "getState E (world (pm (proc t))) = (ret, world (pm (snd (app_getState X (proc t)))))"
    then have "epm_step E (daemon t) ReqGetState ret (world (pm (snd (app_getState X (proc t)))))"
      by (simp add: daemon_def)
    from daemon_request [OF _ this, of n] return(3,5) show ?thesis by (simp add: uses_inv_def)
  qed (use return in \<open>auto simp: uses_inv_def daemon_def intro: reg_inv_Suc\<close>)
  ultimately show ?case using return by (simp add: uses_inv_def daemon_def)
next
  case (run t i ti s)
  then show ?case by (intro uses_run [OF assms(1)])
qed (auto intro!: uses_quiet simp: daemon_def)

lemma die_uses:
  assumes "die_step E d x w = (x', w')" and "reg_inv n w"
  shows "reg_inv (Suc n) w' \<and> ledger_of w' = (if x = DieErase then (ledger_of w)(mPid d := 0) else ledger_of w)"
proof -
  note reg = die_registry [OF assms(1)]
  have "reg_inv n w'" using assms(2) reg(1,3) by (simp add: reg_inv_def map_ok_erase)
  moreover have "ledger_of w' = (if x = DieErase then (ledger_of w)(mPid d := 0) else ledger_of w)"
    using assms(2) reg(1) by (auto simp: ledger_of_def reg_inv_def map_ok_def pm.tally_erase)
  ultimately show ?thesis by (auto intro: reg_inv_Suc)
qed

lemma uses_around:
  assumes "around_step E (calling_pid c) t t'" and "uses_inv c n t" and "n < 2 ^ 31 - 1"
  shows "uses_inv c (Suc n) t'"
  using assms
proof (induction rule: around_step.induct)
  case (foreign t r ret w)
  from daemon_request [OF _ foreign(1,4)] foreign(2,3) foreign_ledger [OF foreign(2)] show ?case
    by (simp add: uses_inv_def set_daemon_def daemon_def)
next
  case (buried i t d x x' w)
  from die_uses [OF buried(3)] buried(4) show ?case
    by (auto simp: uses_inv_def set_daemon_def daemon_def inside_count_def)
qed (auto intro!: uses_quiet simp: daemon_def)

lemma runs_uses:
  assumes "connected X items B E F c"
  shows "test_runs X E c N ok n t \<Longrightarrow> n < 2 ^ 31 - 1 \<Longrightarrow> uses_inv c n t"
proof (induction rule: test_runs.induct)
  case (at_start n s)
  then show ?case using reaches_reg_inv [OF at_start(1)] by (simp add: uses_inv_def daemon_def inside_count_def)
next
  case (own n t t')
  with runs_join [OF own.hyps(1)] show ?case by (intro uses_own [OF assms]) simp_all
next
  case (around n t t')
  then show ?case by (intro uses_around) simp_all
qed

subsection \<open>What the test relies on\<close>





definition sample_test :: "thread_info list \<Rightarrow> main_point \<Rightarrow> bool \<Rightarrow> app \<Rightarrow> test" where
  "sample_test ts m q s = \<lparr>tinfo = ts, main_at = m, g_quit = q, proc = s, dead = []\<rparr>"

lemma sample_calm: "calm (sample_test ts m q s)"
  by (simp add: calm_def sample_test_def dying_at_def)

lemma sample_calm_start: "calm_runs (sample_env failing_ems) good_env some_client 1 (\<lambda>_. True) 0 (sample_test [] Creating False sample_app)"
proof -
  have "reaches good_env 0 (world (pm sample_app))" "ledger_of (world (pm sample_app)) (calling_pid some_client) = 0"
    by (simp_all add: sample_app_def client_start_def reaches.start)
      (simp add: ledger_of_def epm_init_def pm_empty_def pm_find_def)
  then show ?thesis by (rule calm_runs.calm_start [where ds = "[]"]) (simp_all add: sample_calm, simp add: sample_test_def)
qed

lemma sample_calm_thread:
  "calm_runs (sample_env failing_ems) good_env some_client 1 (\<lambda>_. True) 1 (sample_test [fresh_thread] Creating False sample_app)"
proof -
  have "own_step (sample_env failing_ems) 1 (\<lambda>_. True) (sample_test [] Creating False sample_app)
      (sample_test [fresh_thread] Creating False sample_app)"
    using own_step.create [of "sample_test [] Creating False sample_app" 1 "\<lambda>_. True"] by (simp add: sample_test_def)
  from calm_runs.calm_own [OF sample_calm_start this sample_calm] show ?thesis by simp
qed


lemmas sample_runs_start = calm_runs_test [OF sample_calm_start, THEN conjunct1]
  and sample_runs_thread = calm_runs_test [OF sample_calm_thread, THEN conjunct1]



text \<open>C23.  The test takes nothing with it: when \<open>main\<close> has returned after all threads have ended, or
  when the process was stopped early and the death the daemon heard of has erased its entry, the
  daemon counts no use for it.\<close>

theorem stress_test_gives_back:
  assumes "connected X items B E F c" and "test_runs X E c N ok n t" and "n < 2 ^ 31 - 1"
    and "main_at t = Left \<or> tinfo t = []"
  shows "ledger_of (daemon t) (calling_pid c) = 0"
proof -
  have "inside_count (tinfo t) = 0"
    using assms(4) runs_join [OF assms(2)]
    by (auto simp: join_inv_def inside_count_def filter_empty_conv inside_point_def)
  with runs_uses [OF assms(1-3)] show ?thesis by (simp add: uses_inv_def)
qed

text \<open>An interrupt before the only thread has made its first round.\<close>

lemma sample_runs_left:
  "test_runs (sample_env failing_ems) good_env some_client 1 (\<lambda>_. True) 6
     (sample_test [fresh_thread\<lparr>ti_point := Done_thread\<rparr>] Left True (snd (app_getState (sample_env failing_ems) sample_app)))"
proof -
  let ?X = "sample_env failing_ems" and ?d = "fresh_thread\<lparr>ti_point := Done_thread\<rparr>"
  let ?R = "test_runs ?X good_env some_client 1 (\<lambda>_. True)"
  have 2: "?R (Suc 1) (sample_test [fresh_thread] Creating True sample_app)"
    using test_runs.around [OF sample_runs_thread around_step.interrupt]
    by (simp add: sample_test_def alive_def)
  have "thread_step ?X True fresh_thread sample_app = Inr (?d, sample_app)"
    by (simp add: thread_step_def fresh_thread_def)
  then have "own_step ?X 1 (\<lambda>_. True) (sample_test [fresh_thread] Creating True sample_app) (sample_test [?d] Creating True sample_app)"
    using own_step.run [of "sample_test [fresh_thread] Creating True sample_app" 0 ?X ?d sample_app 1 "\<lambda>_. True"]
    by (simp add: sample_test_def alive_def fresh_thread_def)
  from test_runs.own [OF 2 this] have 3: "?R (Suc (Suc 1)) (sample_test [?d] Creating True sample_app)" .
  have 4: "?R (Suc (Suc (Suc 1))) (sample_test [?d] (Joining 0) True sample_app)"
    using test_runs.own [OF 3 own_step.created] by (simp add: sample_test_def)
  have 5: "?R (Suc (Suc (Suc (Suc 1)))) (sample_test [?d] (Joining 1) True sample_app)"
    using test_runs.own [OF 4 own_step.join [of _ 0]] by (simp add: sample_test_def)
  have "?R (Suc (Suc (Suc (Suc (Suc 1))))) (sample_test [?d] Left True (snd (app_getState ?X sample_app)))"
    using test_runs.own [OF 5 own_step.return [of _ 1]] by (simp add: sample_test_def)
  then show ?thesis by (simp add: eval_nat_numeral)
qed

lemma stress_test_gives_back_witness:
  "ledger_of (world (pm (snd (app_getState (sample_env failing_ems) sample_app)))) 42 = 0"
  using stress_test_gives_back [OF sample_connected sample_runs_left]
  by (simp add: sample_test_def daemon_def some_client_def)

subsection \<open>The test ends\<close>

text \<open>The work that is left: of a thread, of \<open>main\<close>, of the process.\<close>

definition thread_work :: "thread_info \<Rightarrow> nat" where
  "thread_work ti = (let k = 5 * unat (ti_count ti) in case ti_point ti of
     Testing \<Rightarrow> k + 1 | Calling \<Rightarrow> k | Reading \<Rightarrow> k - 1 | Releasing \<Rightarrow> k - 2 | Counting \<Rightarrow> k - 3
   | Done_thread \<Rightarrow> 0)"

definition work :: "nat \<Rightarrow> test \<Rightarrow> nat" where
  "work N t = (if \<not> alive t then 0 else
     (case main_at t of Joining i \<Rightarrow> N - i + 1 | _ \<Rightarrow> N + 2) + sum_list (map thread_work (tinfo t)) +
     (N - length (tinfo t)) * (thread_work fresh_thread + 1))"

lemma thread_step_works:
  assumes "thread_step X quit ti s = Inr (ti', s')" and "ti_point ti \<noteq> Done_thread"
    and "ti_point ti \<in> {Testing, Done_thread} \<or> ti_count ti \<noteq> 0"
  shows "thread_work ti' < thread_work ti"
proof -
  have pos: "ti_count ti \<noteq> 0 \<Longrightarrow> 0 < unat (ti_count ti)" by (simp add: unat_gt_0)
  have dec: "ti_count ti \<noteq> 0 \<Longrightarrow> unat (ti_count ti - 1) = unat (ti_count ti) - 1" by (simp add: unat_minus_one)
  show ?thesis
    using assms pos dec
    by (cases "ti_point ti") (auto simp: thread_step_def thread_work_def Let_def split: prod.splits sum.splits if_splits)
qed

lemma sum_list_less:
  "i < length xs \<Longrightarrow> f y < f (xs ! i) \<Longrightarrow> sum_list (map f (xs[i := y])) < (sum_list (map f xs) :: nat)"
proof (induction xs arbitrary: i)
  case (Cons x xs)
  then show ?case by (cases i) auto
qed simp

lemma own_works: "own_step X N ok t t' \<Longrightarrow> join_inv N t \<Longrightarrow> work N t' < work N t"
proof (induction rule: own_step.induct)
  case (create t)
  then obtain k where "N - length (tinfo t) = Suc k" "N - Suc (length (tinfo t)) = k"
    by (metis Suc_diff_Suc)
  with create show ?case by (simp add: work_def alive_def)
next
  case (run t i ti s)
  then have "thread_work ti < thread_work (tinfo t ! i)"
    by (intro thread_step_works [OF run.hyps(4,3)]) (auto simp: join_inv_def)
  with run show ?case using sum_list_less [of i "tinfo t" thread_work ti]
    by (simp add: work_def alive_def)
qed (auto simp: work_def alive_def split: main_point.splits)

lemma around_works:
  assumes "around_step E p t t'" and "p \<in> dying (dead t) \<longrightarrow> \<not> alive t"
  shows "work N t' \<le> work N t"
  using assms
proof (induction rule: around_step.induct)
  case (buried i t d x x' w)
  then show ?case using mem_own_death [OF buried(1,2)]
    by (cases "mPid d = p") (auto simp: work_def alive_def set_daemon_def)
qed (auto simp: work_def alive_def set_daemon_def)

lemma own_possible:
  assumes "alive t" and "join_inv N t"
  shows "\<exists>t'. own_step X N ok t t'"
proof (cases "main_at t")
  case Creating
  then show ?thesis using own_step.create own_step.create_fails own_step.created by metis
next
  case (Joining i)
  show ?thesis
  proof (cases "i < N \<and> ti_point (tinfo t ! i) \<noteq> Done_thread")
    case True
    then have i: "i < length (tinfo t)" using assms(2) Joining by (simp add: join_inv_def)
    show ?thesis
      using own_step.run [OF assms(1) i] own_step.crash [OF assms(1) i] True
      by (cases "thread_step X (g_quit t) (tinfo t ! i) (proc t)") fastforce+
  next
    case False
    then show ?thesis using Joining own_step.join own_step.return by metis
  qed
qed (use assms(1) in \<open>auto simp: alive_def\<close>)

text \<open>C22.  The test ends: every step of \<open>main\<close> or of a thread makes the work that is left smaller,
  nothing that happens around the process makes it larger, and as long as the process is alive it
  can make a step of its own.\<close>

theorem stress_test_ends:
  assumes "test_runs X E c N ok n t"
  shows "(\<forall>t'. own_step X N ok t t' \<longrightarrow> work N t' < work N t) \<and>
    (\<forall>t'. around_step E (calling_pid c) t t' \<longrightarrow> work N t' \<le> work N t) \<and>
    (alive t \<longrightarrow> (\<exists>t'. own_step X N ok t t'))"
  using runs_join [OF assms] own_death [OF assms] own_works around_works own_possible by blast

lemma stress_test_ends_witness:
  "\<exists>t'. own_step (sample_env failing_ems) 1 (\<lambda>_. True) (sample_test [] Creating False sample_app) t' \<and>
    work 1 t' < work 1 (sample_test [] Creating False sample_app)"
  using stress_test_ends [OF sample_runs_start] by (auto simp: sample_test_def alive_def)

end
