(* ===== verification/TeeDemo.thy ===== *)
theory TeeDemo
  imports TeeClient
begin

text \<open>
  The demonstration part of \<open>libese_spi_client/libese_spi_client.cpp\<close>: hexadecimal input and
  output, the activation of an applet through a logical channel, raw commands, and the
  option loop \<open>teeclientdemo\<close> that the test program calls.
\<close>

subsection \<open>Hexadecimal text\<close>

definition hex_digit :: "nat \<Rightarrow> char" where
  "hex_digit n = (if n < 10 then char_of (n + 48) else char_of (n + 55))"

text \<open>\<open>%02X\<close> and the space behind it.\<close>

definition hex2 :: "u8 \<Rightarrow> string" where
  "hex2 b = [hex_digit (unat b div 16), hex_digit (unat b mod 16), CHR '' '']"

text \<open>\<open>-1\<close> as a \<open>uint8_t\<close> stands for a character that is not a digit.\<close>

definition char_to_byte :: "char \<Rightarrow> u8" where
  "char_to_byte ch = (let n = of_char ch :: nat in
     if 48 \<le> n \<and> n \<le> 57 then word_of_nat (n - 48)
     else if 97 \<le> n \<and> n \<le> 102 then word_of_nat (n - 97) + 10
     else if 65 \<le> n \<and> n \<le> 70 then word_of_nat (n - 65) + 10
     else - 1)"

text \<open>
  \<open>hexchar_to_byte\<close> on a string of the given characters, into a buffer of \<open>cap\<close> bytes.  An
  odd number of characters makes the loop step over the terminating zero and read past the
  string.
\<close>

fun hexchar_to_byte :: "nat \<Rightarrow> string \<Rightarrow> u8 list outcome" where
  "hexchar_to_byte cap [] = Inr []"
| "hexchar_to_byte cap [a] = Inl OutOfBounds"
| "hexchar_to_byte cap (a # b # cs) =
     (if cap = 0 then Inl OutOfBounds
      else map_sum id ((#) (push_bit 4 (char_to_byte a) OR char_to_byte b)) (hexchar_to_byte (cap - 1) cs))"

text \<open>The contents of \<open>print_buffer\<close> in \<open>print_packet\<close>: three characters for each byte.\<close>

definition print_buffer :: "u8 list \<Rightarrow> string" where
  "print_buffer bs = concat (map hex2 bs)"

lemma length_print_buffer: "length (print_buffer bs) = 3 * length bs"
  by (induction bs) (simp_all add: print_buffer_def hex2_def)

text \<open>What goes to the standard output: a packet with its direction, or a message of the option
  loop (without the numbers in it).  The progress lines of the transmit functions are left out.\<close>

datatype out = Packet string "u8 list" | Message string

definition print_packet :: "string \<Rightarrow> u8 list \<Rightarrow> out list" where
  "print_packet pString p =
     (if take 4 pString = ''SEND'' \<or> take 4 pString = ''RECV'' then [Packet (take 4 pString) p] else [])"

lemma hex_digit_value:
  assumes "n < 16"
  shows "char_to_byte (hex_digit n) = word_of_nat n"
proof (cases "n < 10")
  case True
  then have "of_char (hex_digit n) = n + 48" by (simp add: hex_digit_def)
  with True show ?thesis by (simp add: char_to_byte_def)
next
  case False
  then have "of_char (hex_digit n) = n + 55" using assms by (simp add: hex_digit_def)
  moreover have "word_of_nat (n - 10) + 10 = (word_of_nat n :: u8)" using False by (simp add: of_nat_diff)
  ultimately show ?thesis using False assms by (simp add: char_to_byte_def)
qed

lemma hex2_value: "push_bit 4 (char_to_byte (hex_digit (unat b div 16))) OR char_to_byte (hex_digit (unat b mod 16)) = b"
proof -
  have lt: "unat b < 256" using unsigned_less [of b] by simp
  have d16: "unat b div 16 < 16" using lt by (simp add: less_mult_imp_div_less)
  have m16: "unat b mod 16 < 16" by simp
  have hi: "unat b div 16 = unat (drop_bit 4 b)" by (simp add: drop_bit_eq_div unat_div)
  have lo: "unat b mod 16 = unat (take_bit 4 b)" by (simp add: take_bit_eq_mod unat_mod)
  have "push_bit 4 (drop_bit 4 b) OR take_bit 4 b = b"
    by (rule bit_word_eqI) (auto simp: bit_simps)
  moreover have "char_to_byte (hex_digit (unat b div 16)) = drop_bit 4 b"
    using hex_digit_value [OF d16] by (simp add: hi)
  moreover have "char_to_byte (hex_digit (unat b mod 16)) = take_bit 4 b"
    using hex_digit_value [OF m16] by (simp add: lo)
  ultimately show ?thesis by simp
qed

lemma hex_digit_visible: "n < 16 \<Longrightarrow> hex_digit n \<noteq> CHR '' ''"
proof
  assume n: "n < 16" and e: "hex_digit n = CHR '' ''"
  have "of_char (hex_digit n) = (if n < 10 then n + 48 else n + 55)" using n by (simp add: hex_digit_def)
  moreover have "of_char (CHR '' '') = (32 :: nat)" by simp
  ultimately show False using e by (simp split: if_splits)
qed

lemma hex2_visible: "filter (\<lambda>c. c \<noteq> CHR '' '') (hex2 b) = [hex_digit (unat b div 16), hex_digit (unat b mod 16)]"
proof -
  have "unat b < 256" using unsigned_less [of b] by simp
  then have "unat b div 16 < 16" "unat b mod 16 < 16" by (simp_all add: less_mult_imp_div_less)
  then show ?thesis by (simp add: hex2_def hex_digit_visible)
qed

text \<open>C37.  Reading back what is printed: the text that \<open>print_packet\<close> builds for any bytes, without the
  spaces in it, is read by the option \<open>-i\<close> as exactly those bytes when there are at most as many of them as
  its buffer has room for, and runs over the buffer when there are more.\<close>

theorem hex_round_trip:
  "hexchar_to_byte cap (filter (\<lambda>c. c \<noteq> CHR '' '') (print_buffer bs)) =
     (if length bs \<le> cap then Inr bs else Inl OutOfBounds)"
proof (induction bs arbitrary: cap)
  case (Cons b bs)
  show ?case using Cons [of "cap - 1"]
    by (cases cap) (simp_all add: print_buffer_def hex2_visible hex2_value)
qed (simp add: print_buffer_def)

text \<open>The conversion has no bound of its own: it faults exactly when the number of
  characters is odd (the terminating zero is stepped over) or there are more than two for each
  byte of the buffer.\<close>

lemma hex_fault_iff: "(\<exists>f. hexchar_to_byte cap cs = Inl f) \<longleftrightarrow> odd (length cs) \<or> 2 * cap < length cs"
  by (induction cap cs rule: hexchar_to_byte.induct) (auto simp: not_less)

subsection \<open>The operation of the demonstration\<close>

text \<open>
  The two blocks with the sizes of their references in the \<open>TEEC_Operation\<close>, the library's
  log, and the output so far.
\<close>

record demo =
  bigInt1 :: "u8 list"
  size0 :: u32
  bigOut :: "u8 list"
  size1 :: u32
  dlog :: "tee_event list"
  printed :: "out list"

definition set_size1 :: "u32 \<Rightarrow> demo \<Rightarrow> demo" where "set_size1 n d = d\<lparr>size1 := n\<rparr>"

text \<open>
  An invocation.  An input reference that reaches behind its block is a misuse of the library, which
  would read there.  The size of the output reference goes into the log as it is.
\<close>

definition demo_invoke :: "tee_env \<Rightarrow> u32 \<Rightarrow> demo \<Rightarrow> u32 outcome \<times> demo" where
  "demo_invoke E cmd d =
     (if length (bigInt1 d) < unat (size0 d) then (Inl ApiMisuse, d)
      else let ((r, obuf, n), tr) = do_invoke E cmd (take (unat (size0 d)) (bigInt1 d)) (size1 d) (bigOut d) (dlog d)
        in (Inr r, d\<lparr>bigOut := obuf, size1 := n, dlog := tr\<rparr>))"

text \<open>
  One step of \<open>invoke_transmit\<close>: the command is copied to the input block and invoked; a success
  copies the answer over the local array \<open>resp\<close> of 100 bytes and prints both.
\<close>

definition transmit :: "tee_env \<Rightarrow> u32 \<Rightarrow> u8 list \<Rightarrow> u8 list \<Rightarrow> demo \<Rightarrow> (u32 \<times> u8 list) outcome \<times> demo" where
  "transmit E cmd data resp d =
     (case mem_write (bigInt1 d) 0 data of Inl f \<Rightarrow> (Inl f, d)
      | Inr ibuf \<Rightarrow>
        (case demo_invoke E cmd (d\<lparr>bigInt1 := ibuf, size0 := word_of_nat (length data)\<rparr>) of
           (Inl f, d) \<Rightarrow> (Inl f, d)
         | (Inr result, d) \<Rightarrow>
         if result \<noteq> teec_value TEEC_SUCCESS then (Inr (result, resp), d)
         else case mem_read (bigOut d) 0 (unat (size1 d)) of Inl f \<Rightarrow> (Inl f, d)
           | Inr bs \<Rightarrow>
             (case mem_write resp 0 bs of Inl f \<Rightarrow> (Inl f, d)
              | Inr resp \<Rightarrow> (Inr (result, resp),
                  d\<lparr>printed := printed d @ print_packet ''SEND'' data @ print_packet ''RECV'' bs\<rparr>))))"

definition crs_aid :: "u8 list" where
  "crs_aid = [0xA0, 0x00, 0x00, 0x01, 0x51, 0x43, 0x52, 0x53, 0x00]"

definition set_status_deactive :: "u8 list" where
  "set_status_deactive = [0x80, 0xF0, 0x01, 0x00, 0x0B, 0x4F, 0x09, 0xA0, 0x00, 0x00, 0x01, 0x51, 0x41,
     0x43, 0x4C, 0x00, 0x00]"

definition set_status_active :: "u8 list" where
  "set_status_active = [0x80, 0xF0, 0x01, 0x01, 0x0B, 0x4F, 0x09, 0xA0, 0x00, 0x00, 0x01, 0x51, 0x41,
     0x43, 0x4C, 0x00, 0x00]"

definition get_status_deactive :: "u8 list" where
  "get_status_deactive = [0x80, 0xF2, 0x40, 0x00, 0x0F, 0x4F, 0x09, 0xA0, 0x00, 0x00, 0x01, 0x51, 0x41,
     0x43, 0x4C, 0x00, 0x5C, 0x02, 0x9F, 0x70, 0x00]"

text \<open>A step whose failure ends the function with its result.\<close>

definition next_step :: "(u32 \<times> u8 list) outcome \<times> 's \<Rightarrow> (u8 list \<Rightarrow> 's \<Rightarrow> u32 outcome \<times> 's) \<Rightarrow>
    u32 outcome \<times> 's" where
  "next_step m k = (case m of (Inl f, d) \<Rightarrow> (Inl f, d)
     | (Inr (result, resp), d) \<Rightarrow> if result \<noteq> teec_value TEEC_SUCCESS then (Inr result, d) else k resp d)"

definition invoke_transmit :: "tee_env \<Rightarrow> demo \<Rightarrow> u32 outcome \<times> demo" where
  "invoke_transmit E d =
     next_step (transmit E OPEN_LOGICAL_CHANNEL crs_aid (replicate 100 0) d) (\<lambda>resp d.
     next_step (transmit E CHANNEL_TRANSMIT get_status_deactive resp (set_size1 BIG_INT_LENGTH d)) (\<lambda>resp d.
     next_step (transmit E CHANNEL_TRANSMIT (if resp ! 6 \<noteq> 0x00 then set_status_deactive else set_status_active)
       resp (set_size1 BIG_INT_LENGTH d)) (\<lambda>resp d.
     next_step (transmit E CHANNEL_TRANSMIT get_status_deactive resp (set_size1 BIG_INT_LENGTH d)) (\<lambda>resp d.
     demo_invoke E CLOSE_CHANNEL (set_size1 BIG_INT_LENGTH d)))))"

definition invoke_hal_transmit :: "tee_env \<Rightarrow> u8 list \<Rightarrow> demo \<Rightarrow> u32 outcome \<times> demo" where
  "invoke_hal_transmit E hal_cmd d =
     (case transmit E HAL_TRANSMIT hal_cmd (replicate 100 0) (set_size1 BIG_INT_LENGTH d) of
        (Inl f, d) \<Rightarrow> (Inl f, d) | (Inr (ret, resp), d) \<Rightarrow> (Inr ret, d))"

text \<open>The options, as the C library's \<open>getopt(argc, argv, "cti:")\<close> gives them.\<close>

datatype demo_opt = OptC | OptT | OptI string | OptOther

fun demo_options :: "tee_env \<Rightarrow> demo_opt list \<Rightarrow> demo \<Rightarrow> unit outcome \<times> demo" where
  "demo_options E [] d = (Inr (), d)"
| "demo_options E (OptC # os) d =
     (case invoke_transmit E d of (Inl f, d) \<Rightarrow> (Inl f, d) | (Inr _, d) \<Rightarrow> demo_options E os d)"
| "demo_options E (OptT # os) d =
     (case demo_invoke E ESESPI_TEST d of (Inl f, d) \<Rightarrow> (Inl f, d)
      | (Inr ret, d) \<Rightarrow> demo_options E os (d\<lparr>printed := printed d @
          [Message (if ret = 0 then ''ESESPI_TEST sucess'' else ''ESESPI_TEST fail'')]\<rparr>))"
| "demo_options E (OptI optarg # os) d =
     (case hexchar_to_byte 256 optarg of Inl f \<Rightarrow> (Inl f, d)
      | Inr hal_cmd \<Rightarrow> (case invoke_hal_transmit E hal_cmd d of
          (Inl f, d) \<Rightarrow> (Inl f, d) | (Inr _, d) \<Rightarrow> demo_options E os d))"
| "demo_options E (OptOther # os) d = demo_options E os d"

text \<open>
  \<open>teeclientdemo\<close>: the results of the two allocations are ignored, so after a failure the
  \<open>memset\<close> goes to an uninitialised pointer.  It always returns 0.
\<close>

definition teeclientdemo :: "tee_env \<Rightarrow> demo_opt list \<Rightarrow> tee_event list \<Rightarrow>
    (i32 \<times> out list) outcome \<times> tee_event list" where
  "teeclientdemo E opts tr =
     (let (ret, tr) = tee_start E tr in
      if ret = INIT_CONTEXT_FAILED then (Inr (0, []), tr)
      else if ret = OPEN_SESSION_FAILED then (Inr (0, []), TeFinalize # tr)
      else let (result, tr) = do_alloc E InputSm BIG_INT_LENGTH tr in
        if result \<noteq> teec_value TEEC_SUCCESS then (Inl Uninitialised, tr)
        else let (result, tr) = do_alloc E OutputSm BIG_INT_LENGTH tr in
          if result \<noteq> teec_value TEEC_SUCCESS then (Inl Uninitialised, tr)
          else let d = \<lparr>bigInt1 = 0 # replicate 255 0xFF, size0 = BIG_INT_LENGTH,
                 bigOut = replicate 256 0, size1 = BIG_INT_LENGTH, dlog = tr,
                 printed = [Message ''Usage:./teeclientdemo -c -t -i data'']\<rparr>
            in case demo_options E opts d of (Inl f, d) \<Rightarrow> (Inl f, dlog d)
              | (Inr _, d) \<Rightarrow> (Inr (0, printed d),
                  [TeFinalize, TeClose, TeRelease OutputSm, TeRelease InputSm] @ dlog d))"

subsection \<open>Cleaning up\<close>

text \<open>The steps of the demonstration keep the session open with its two blocks.\<close>

definition demo_open :: "tee_event list \<Rightarrow> bool" where
  "demo_open tr \<longleftrightarrow> tee_replay tr = Some \<lparr>in_context = True, in_session = True, in_mem = Held, out_mem = Held\<rparr>"

lemma open_demo_invoke: "demo_open (dlog d) \<Longrightarrow> demo_open (dlog (snd (demo_invoke E cmd d)))"
  by (simp add: demo_invoke_def do_invoke_def demo_open_def split_beta)

lemma open_set_size1 [simp]: "dlog (set_size1 n d) = dlog d"
  by (simp add: set_size1_def)

lemma open_transmit:
  assumes "demo_open (dlog d)"
  shows "demo_open (dlog (snd (transmit E cmd data resp d)))"
proof (cases "mem_write (bigInt1 d) 0 data")
  case (Inr ibuf)
  let ?d = "d\<lparr>bigInt1 := ibuf, size0 := word_of_nat (length data)\<rparr>"
  obtain r d' where i: "demo_invoke E cmd ?d = (r, d')" by fastforce
  have "demo_open (dlog (snd (demo_invoke E cmd ?d)))"
    using assms by (intro open_demo_invoke) simp
  with Inr i show ?thesis
    by (auto simp: transmit_def split: sum.split)
qed (simp add: transmit_def assms)

lemma open_next_step:
  assumes "demo_open (dlog (snd m))" and "\<And>resp d. demo_open (dlog d) \<Longrightarrow> demo_open (dlog (snd (k resp d)))"
  shows "demo_open (dlog (snd (next_step m k)))"
  using assms by (auto simp: next_step_def split: prod.split sum.split)

lemma open_invoke_transmit: "demo_open (dlog d) \<Longrightarrow> demo_open (dlog (snd (invoke_transmit E d)))"
  unfolding invoke_transmit_def
  by (intro open_next_step open_transmit open_demo_invoke) simp_all

lemma open_invoke_hal: "demo_open (dlog d) \<Longrightarrow> demo_open (dlog (snd (invoke_hal_transmit E cmd d)))"
  using open_transmit [of "set_size1 BIG_INT_LENGTH d" E HAL_TRANSMIT cmd "replicate 100 0"]
  by (auto simp: invoke_hal_transmit_def split: prod.split sum.split)

lemma open_options: "demo_open (dlog d) \<Longrightarrow> demo_open (dlog (snd (demo_options E os d)))"
proof (induction E os d rule: demo_options.induct)
  case (2 E os d)
  obtain r d' where i: "invoke_transmit E d = (r, d')" by fastforce
  with open_invoke_transmit [OF 2(2), of E] have "demo_open (dlog d')" by simp
  with 2(1) [OF i [symmetric]] i show ?case by (auto split: sum.split)
next
  case (3 E os d)
  obtain r d' where i: "demo_invoke E ESESPI_TEST d = (r, d')" by fastforce
  with open_demo_invoke [OF 3(2), of E ESESPI_TEST] have "demo_open (dlog d')" by simp
  with 3(1) [OF i [symmetric]] i show ?case by (auto split: sum.split)
next
  case (4 E optarg os d)
  show ?case
  proof (cases "hexchar_to_byte 256 optarg")
    case (Inr hal_cmd)
    obtain r d' where i: "invoke_hal_transmit E hal_cmd d = (r, d')" by fastforce
    with open_invoke_hal [OF 4(2), of E hal_cmd] have "demo_open (dlog d')" by simp
    with 4(1) [OF Inr i [symmetric]] i Inr show ?thesis by (auto split: sum.split)
  qed (simp add: 4)
qed simp_all

lemma demo_idle:
  assumes "teeclientdemo E opts tr = (Inr x, tr')" and "tee_replay tr = Some tee_idle"
  shows "tee_replay tr' = Some tee_idle"
proof -
  let ?d = "\<lambda>tr. \<lparr>bigInt1 = 0 # replicate 255 0xFF, size0 = BIG_INT_LENGTH, bigOut = replicate 256 0,
    size1 = BIG_INT_LENGTH, dlog = tr, printed = [Message ''Usage:./teeclientdemo -c -t -i data'']\<rparr>"
  have opts: "demo_options E opts (?d t) = (r, d') \<Longrightarrow> demo_open t \<Longrightarrow> demo_open (dlog d')" for t r d'
    using open_options [of "?d t" E opts] by simp
  show ?thesis
    using assms
    by (auto simp: teeclientdemo_def tee_start_def do_init_def do_tee_open_def do_alloc_def Let_def
        INIT_CONTEXT_FAILED_def OPEN_SESSION_FAILED_def tee_idle_def demo_open_def allocated_def
        split: if_splits prod.splits sum.splits dest!: opts)
qed

interpretation demonstration: tee_routine "teeclientdemo E opts" for E opts
  by unfold_locales (rule demo_idle)

text \<open>The demonstration cleans up: whatever options it is given and whatever the
  library and the trusted application answer, when it returns (always with 0) the session is
  closed, both blocks are released and the context is finalised.\<close>

lemma demo_cleans_up:
  assumes "teeclientdemo E opts tr = (Inr (ret, out), tr')" and "tee_replay tr = Some tee_idle"
  shows "ret = 0 \<and> tee_replay tr' = Some tee_idle"
  using demo_idle [OF assms] assms(1)
  by (auto simp: teeclientdemo_def Let_def split: if_splits prod.splits sum.splits)

lemma demo_cleans_up_witness:
  "\<exists>out tr'. teeclientdemo echo_tee [OptT] [] = (Inr (0, out), tr') \<and> tee_replay tr' = Some tee_idle"
proof -
  have "\<exists>out tr'. teeclientdemo echo_tee [OptT] [] = (Inr (0, out), tr')"
    by (simp add: teeclientdemo_def tee_start_def do_init_def do_tee_open_def do_alloc_def echo_tee_def
        demo_invoke_def do_invoke_def INIT_CONTEXT_FAILED_def OPEN_SESSION_FAILED_def BIG_INT_LENGTH_def split_beta Let_def)
  then obtain out tr' where "teeclientdemo echo_tee [OptT] [] = (Inr (0, out), tr')" by blast
  with demo_cleans_up [OF this] show ?thesis by simp
qed

subsection \<open>The applet switch\<close>

text \<open>The invocations of a log, oldest first, with their input.\<close>

fun invocations :: "tee_event list \<Rightarrow> (u32 \<times> u8 list) list" where
  "invocations [] = []"
| "invocations (TeInvoke cmd inp n r # tr) = invocations tr @ [(cmd, inp)]"
| "invocations (_ # tr) = invocations tr"

text \<open>The blocks of the demonstration have 256 bytes each.\<close>

definition blocks_ok :: "demo \<Rightarrow> bool" where
  "blocks_ok d \<longleftrightarrow> length (bigInt1 d) = 256 \<and> length (bigOut d) = 256"

text \<open>Every answer is a success of at most 100 bytes.\<close>

definition answers_fit :: "tee_env \<Rightarrow> bool" where
  "answers_fit E \<longleftrightarrow> (\<forall>tr cmd inp n. \<exists>ws. tee_invoke E tr cmd inp n = (0, ws, word_of_nat (length ws)) \<and> length ws \<le> 100)"

lemma transmit_ok:
  assumes "answers_fit E" and "blocks_ok d" and "length data \<le> 256" and "length resp = 100"
  shows "\<exists>d'. transmit E cmd data resp d =
      (Inr (0, overlay (fst (snd (tee_invoke E (dlog d) cmd data (size1 d)))) resp), d') \<and>
    blocks_ok d' \<and> invocations (dlog d') = invocations (dlog d) @ [(cmd, data)] \<and>
    take (unat (size0 d')) (bigInt1 d') = data \<and> size0 d' = word_of_nat (length data)"
proof -
  have len: "unat (word_of_nat (length data) :: u32) = length data"
    using assms(3) by (simp add: unat_of_nat)
  have inp: "take (length data) (take (length (bigInt1 d)) (data @ drop (length data) (bigInt1 d))) = data"
    using assms(2,3) by (simp add: blocks_ok_def min_def)
  obtain ws where ws: "tee_invoke E (dlog d) cmd data (size1 d) = (0, ws, word_of_nat (length ws))" "length ws \<le> 100"
    using assms(1) unfolding answers_fit_def by blast
  then have lw: "unat (word_of_nat (length ws) :: u32) = length ws" by (simp add: unat_of_nat)
  have w: "mem_write (bigInt1 d) 0 data = Inr (data @ drop (length data) (bigInt1 d))"
    using assms(2,3) by (simp add: mem_write_def blocks_ok_def)
  have o: "overlay ws xs = ws @ drop (length ws) xs" if "100 \<le> length xs" for xs
    using that ws(2) by (simp add: overlay_def)
  show ?thesis
    using assms ws lw len
    by (simp add: transmit_def w demo_invoke_def do_invoke_def o blocks_ok_def mem_read_def mem_write_def)
qed

lemma next_step_ok: "m = (Inr (0, resp), d) \<Longrightarrow> next_step m k = k resp d"
  by (simp add: next_step_def)

lemma blocks_set_size1 [simp]: "blocks_ok (set_size1 n d) = blocks_ok d"
  by (simp add: blocks_ok_def set_size1_def)

text \<open>The applet switch: when every invocation succeeds with at most 100 bytes, and the
  status command is always answered with \<open>ws\<close>, \<open>invoke_transmit\<close> opens the channel, asks for the
  status, switches the applet off if the seventh byte of the answer is not zero and on if it is,
  asks again and closes the channel, in this order and once each.\<close>

lemma applet_switch:
  assumes "answers_fit E" and "blocks_ok d"
    and "\<And>tr n. fst (snd (tee_invoke E tr CHANNEL_TRANSMIT get_status_deactive n)) = ws" and "7 \<le> length ws"
  shows "\<exists>d'. invoke_transmit E d = (Inr 0, d') \<and> invocations (dlog d') = invocations (dlog d) @
    [(OPEN_LOGICAL_CHANNEL, crs_aid), (CHANNEL_TRANSMIT, get_status_deactive),
     (CHANNEL_TRANSMIT, if ws ! 6 \<noteq> 0 then set_status_deactive else set_status_active),
     (CHANNEL_TRANSMIT, get_status_deactive), (CLOSE_CHANNEL, get_status_deactive)]"
proof -
  note ok = transmit_ok [OF assms(1)]
  have lens: "length crs_aid \<le> 256" "length get_status_deactive \<le> 256" "length set_status_deactive \<le> 256"
    "length set_status_active \<le> 256"
    by (simp_all add: crs_aid_def get_status_deactive_def set_status_deactive_def set_status_active_def)
  define cmd where "cmd = (if ws ! 6 \<noteq> 0 then set_status_deactive else set_status_active)"
  have lc: "length cmd \<le> 256" using lens by (simp add: cmd_def)
  let ?s = "set_size1 BIG_INT_LENGTH"
  obtain d1 r1 where t1: "transmit E OPEN_LOGICAL_CHANNEL crs_aid (replicate 100 0) d = (Inr (0, r1), d1)"
    "blocks_ok d1" "invocations (dlog d1) = invocations (dlog d) @ [(OPEN_LOGICAL_CHANNEL, crs_aid)]" "length r1 = 100"
    using ok [OF assms(2) lens(1), of "replicate 100 0"] by (metis length_overlay length_replicate)
  obtain d2 where t2: "transmit E CHANNEL_TRANSMIT get_status_deactive r1 (?s d1) = (Inr (0, overlay ws r1), d2)"
    "blocks_ok d2" "invocations (dlog d2) = invocations (dlog d1) @ [(CHANNEL_TRANSMIT, get_status_deactive)]"
    using ok [of "?s d1" get_status_deactive r1 CHANNEL_TRANSMIT] t1(2,4) lens(2) assms(3) by auto
  have six: "overlay ws r1 ! 6 = ws ! 6" using assms(4) t1(4) by (simp add: overlay_def nth_append)
  obtain d3 r3 where t3: "transmit E CHANNEL_TRANSMIT cmd (overlay ws r1) (?s d2) = (Inr (0, r3), d3)"
    "blocks_ok d3" "invocations (dlog d3) = invocations (dlog d2) @ [(CHANNEL_TRANSMIT, cmd)]" "length r3 = 100"
    using ok [of "?s d2" cmd "overlay ws r1" CHANNEL_TRANSMIT] t2(2) t1(4) lc by auto
  obtain d4 r4 where t4: "transmit E CHANNEL_TRANSMIT get_status_deactive r3 (?s d3) = (Inr (0, r4), d4)"
    "blocks_ok d4" "invocations (dlog d4) = invocations (dlog d3) @ [(CHANNEL_TRANSMIT, get_status_deactive)]"
    "take (unat (size0 d4)) (bigInt1 d4) = get_status_deactive" "size0 d4 = word_of_nat (length get_status_deactive)"
    using ok [of "?s d3" get_status_deactive r3 CHANNEL_TRANSMIT] t3(2,4) lens(2) by auto
  obtain w where "tee_invoke E (dlog d4) CLOSE_CHANNEL get_status_deactive BIG_INT_LENGTH = (0, w, word_of_nat (length w))"
    using assms(1) unfolding answers_fit_def by blast
  moreover have "\<not> length (bigInt1 d4) < unat (size0 d4)"
    using t4(2,5) lens(2) by (simp add: blocks_ok_def unat_of_nat)
  ultimately have "\<exists>d'. demo_invoke E CLOSE_CHANNEL (?s d4) = (Inr 0, d') \<and>
      invocations (dlog d') = invocations (dlog d4) @ [(CLOSE_CHANNEL, get_status_deactive)]"
    using t4(4) by (simp add: demo_invoke_def do_invoke_def set_size1_def)
  then show ?thesis
    unfolding invoke_transmit_def next_step_ok [OF t1(1)] next_step_ok [OF t2(1)] six cmd_def [symmetric] next_step_ok [OF t3(1)]
      next_step_ok [OF t4(1)]
    using t1(3) t2(3) t3(3) t4(3) by (auto simp: cmd_def)
qed

definition applet_tee :: tee_env where
  "applet_tee = echo_tee\<lparr>tee_invoke := \<lambda>_ _ _ _. (0, [0, 0, 0, 0, 0, 0, 1], 7)\<rparr>"

lemma applet_switch_witness:
  "\<exists>d'. invoke_transmit applet_tee \<lparr>bigInt1 = replicate 256 0, size0 = 0, bigOut = replicate 256 0, size1 = 256,
      dlog = [], printed = []\<rparr> = (Inr 0, d') \<and> (CHANNEL_TRANSMIT, set_status_deactive) \<in> set (invocations (dlog d'))"
  using applet_switch [of applet_tee "\<lparr>bigInt1 = replicate 256 0, size0 = 0, bigOut = replicate 256 0, size1 = 256,
      dlog = [], printed = []\<rparr>" "[0, 0, 0, 0, 0, 0, 1]"]
  by (auto simp: answers_fit_def applet_tee_def blocks_ok_def)

end
