(* ===== verification/TeeDemoC.thy ===== *)
theory TeeDemoC
  imports TeeDemo
begin

text \<open>
  \<open>libese_spi_client/teeclientdemo.c\<close>, the earlier version of the demonstration, in C.  Its
  operation has four parameters (a value, two input blocks, one output block) where the later
  one has two, and its \<open>init\<close> goes on after a failure.  The hexadecimal functions and the
  command arrays are the same as in the later version.  The program is checked against the protocol
  of the library, which it keeps exactly when its context can be initialised.
\<close>

subsection \<open>The library, as this version uses it\<close>

datatype c_block = BigInt1 | BigInt2 | BigOut

datatype c_event =
    CeInit string u32
  | CeOpen TEEC_UUID u32
  | CeAlloc c_block u32 u32
  | CeInvoke u32 "u32 \<times> u32" "u8 list" "u8 list" u32 u32
  | CeRelease c_block
  | CeClose
  | CeFinalize

text \<open>An invocation also gives the new contents of the value parameter.\<close>

record c_env =
  c_initialize :: "c_event list \<Rightarrow> string \<Rightarrow> u32"
  c_open_session :: "c_event list \<Rightarrow> TEEC_UUID \<Rightarrow> u32"
  c_allocate :: "c_event list \<Rightarrow> c_block \<Rightarrow> u32 \<Rightarrow> u32"
  c_invoke :: "c_event list \<Rightarrow> u32 \<Rightarrow> u32 \<times> u32 \<Rightarrow> u8 list \<Rightarrow> u8 list \<Rightarrow> u32 \<Rightarrow> u32 \<times> (u32 \<times> u32) \<times> u8 list \<times> u32"

definition C_INIT_CONTEXT_FAILED :: u32 where "C_INIT_CONTEXT_FAILED = 0x0100"
definition C_OPEN_SESSION_FAILED :: u32 where "C_OPEN_SESSION_FAILED = 0x0101"

text \<open>\<open>init\<close>: the second call is made, and decides the value, whatever the first one returned.\<close>

definition c_start :: "c_env \<Rightarrow> c_event list \<Rightarrow> u32 \<times> c_event list" where
  "c_start C tr =
     (let returnValue = 0;
          result = c_initialize C tr hostName; tr = CeInit hostName result # tr;
          returnValue = (if result \<noteq> teec_value TEEC_SUCCESS then C_INIT_CONTEXT_FAILED else returnValue);
          result = c_open_session C tr uuid_ta; tr = CeOpen uuid_ta result # tr;
          returnValue = (if result \<noteq> teec_value TEEC_SUCCESS then C_OPEN_SESSION_FAILED else returnValue)
      in (returnValue, tr))"

definition c_do_alloc :: "c_env \<Rightarrow> c_block \<Rightarrow> u32 \<Rightarrow> c_event list \<Rightarrow> u32 \<times> c_event list" where
  "c_do_alloc C b n tr = (let r = c_allocate C tr b n in (r, CeAlloc b n r # tr))"

subsection \<open>The operation\<close>

record c_demo =
  c_value :: "u32 \<times> u32"
  c_bigInt1 :: "u8 list"
  c_size1 :: u32
  c_bigInt2 :: "u8 list"
  c_size2 :: u32
  c_bigOut :: "u8 list"
  c_size3 :: u32
  c_log :: "c_event list"
  c_printed :: "out list"

definition set_size3 :: "u32 \<Rightarrow> c_demo \<Rightarrow> c_demo" where "set_size3 n d = d\<lparr>c_size3 := n\<rparr>"

text \<open>An input reference that reaches behind its block is a misuse, as in the later version.\<close>

definition c_demo_invoke :: "c_env \<Rightarrow> u32 \<Rightarrow> c_demo \<Rightarrow> u32 outcome \<times> c_demo" where
  "c_demo_invoke C cmd d =
     (if length (c_bigInt1 d) < unat (c_size1 d) \<or> length (c_bigInt2 d) < unat (c_size2 d) then (Inl ApiMisuse, d)
      else let i1 = take (unat (c_size1 d)) (c_bigInt1 d); i2 = take (unat (c_size2 d)) (c_bigInt2 d);
          (r, v, ws, n) = c_invoke C (c_log d) cmd (c_value d) i1 i2 (c_size3 d)
      in (Inr r, d\<lparr>c_value := v, c_bigOut := overlay ws (c_bigOut d), c_size3 := n,
            c_log := CeInvoke cmd (c_value d) i1 i2 (c_size3 d) r # c_log d\<rparr>))"

definition c_transmit :: "c_env \<Rightarrow> u32 \<Rightarrow> u8 list \<Rightarrow> u8 list \<Rightarrow> c_demo \<Rightarrow> (u32 \<times> u8 list) outcome \<times> c_demo" where
  "c_transmit C cmd data resp d =
     (case mem_write (c_bigInt1 d) 0 data of Inl f \<Rightarrow> (Inl f, d)
      | Inr ibuf \<Rightarrow>
        (case c_demo_invoke C cmd (d\<lparr>c_bigInt1 := ibuf, c_size1 := word_of_nat (length data)\<rparr>) of
           (Inl f, d) \<Rightarrow> (Inl f, d)
         | (Inr result, d) \<Rightarrow>
         if result \<noteq> teec_value TEEC_SUCCESS then (Inr (result, resp), d)
         else case mem_read (c_bigOut d) 0 (unat (c_size3 d)) of Inl f \<Rightarrow> (Inl f, d)
           | Inr bs \<Rightarrow>
             (case mem_write resp 0 bs of Inl f \<Rightarrow> (Inl f, d)
              | Inr resp \<Rightarrow> (Inr (result, resp),
                  d\<lparr>c_printed := c_printed d @ print_packet ''SEND'' data @ print_packet ''RECV'' bs\<rparr>))))"

definition c_invoke_transmit :: "c_env \<Rightarrow> c_demo \<Rightarrow> u32 outcome \<times> c_demo" where
  "c_invoke_transmit C d =
     next_step (c_transmit C OPEN_LOGICAL_CHANNEL crs_aid (replicate 100 0) d) (\<lambda>resp d.
     next_step (c_transmit C CHANNEL_TRANSMIT get_status_deactive resp (set_size3 BIG_INT_LENGTH d)) (\<lambda>resp d.
     next_step (c_transmit C CHANNEL_TRANSMIT (if resp ! 6 \<noteq> 0x00 then set_status_deactive else set_status_active)
       resp (set_size3 BIG_INT_LENGTH d)) (\<lambda>resp d.
     next_step (c_transmit C CHANNEL_TRANSMIT get_status_deactive resp (set_size3 BIG_INT_LENGTH d)) (\<lambda>resp d.
     c_demo_invoke C CLOSE_CHANNEL (set_size3 BIG_INT_LENGTH d)))))"

definition c_invoke_hal_transmit :: "c_env \<Rightarrow> u8 list \<Rightarrow> c_demo \<Rightarrow> u32 outcome \<times> c_demo" where
  "c_invoke_hal_transmit C hal_cmd d =
     (case c_transmit C HAL_TRANSMIT hal_cmd (replicate 100 0) (set_size3 BIG_INT_LENGTH d) of
        (Inl f, d) \<Rightarrow> (Inl f, d) | (Inr (ret, resp), d) \<Rightarrow> (Inr ret, d))"

fun c_demo_options :: "c_env \<Rightarrow> demo_opt list \<Rightarrow> c_demo \<Rightarrow> unit outcome \<times> c_demo" where
  "c_demo_options C [] d = (Inr (), d)"
| "c_demo_options C (OptC # os) d =
     (case c_invoke_transmit C d of (Inl f, d) \<Rightarrow> (Inl f, d) | (Inr _, d) \<Rightarrow> c_demo_options C os d)"
| "c_demo_options C (OptT # os) d =
     (case c_demo_invoke C ESESPI_TEST d of (Inl f, d) \<Rightarrow> (Inl f, d)
      | (Inr ret, d) \<Rightarrow> c_demo_options C os (d\<lparr>c_printed := c_printed d @
           [Message (if ret = 0 then ''ESESPI_TEST sucess'' else ''ESESPI_TEST fail'')]\<rparr>))"
| "c_demo_options C (OptI optarg # os) d =
     (case hexchar_to_byte 256 optarg of Inl f \<Rightarrow> (Inl f, d)
      | Inr hal_cmd \<Rightarrow> (case c_invoke_hal_transmit C hal_cmd d of
          (Inl f, d) \<Rightarrow> (Inl f, d) | (Inr _, d) \<Rightarrow> c_demo_options C os d))"
| "c_demo_options C (OptOther # os) d = c_demo_options C os d"

definition c_operation :: "c_event list \<Rightarrow> c_demo" where
  "c_operation tr = \<lparr>c_value = (3, 0), c_bigInt1 = 0 # replicate 255 0xFF, c_size1 = BIG_INT_LENGTH,
     c_bigInt2 = 0 # replicate 255 0xFF, c_size2 = BIG_INT_LENGTH, c_bigOut = replicate 256 0,
     c_size3 = BIG_INT_LENGTH, c_log = tr, c_printed = [Message ''Usage:./teeclientdemo -c -t -i data'']\<rparr>"

text \<open>The results of the three allocations are ignored, so a failed one ends in an uninitialised
  pointer, as in the later version.\<close>

definition c_teeclientdemo :: "c_env \<Rightarrow> demo_opt list \<Rightarrow> c_event list \<Rightarrow> (i32 \<times> out list) outcome \<times> c_event list" where
  "c_teeclientdemo C opts tr =
     (let (ret, tr) = c_start C tr in
      if ret = C_INIT_CONTEXT_FAILED then (Inr (0, []), tr)
      else if ret = C_OPEN_SESSION_FAILED then (Inr (0, []), CeFinalize # tr)
      else let (result, tr) = c_do_alloc C BigInt1 BIG_INT_LENGTH tr in
        if result \<noteq> teec_value TEEC_SUCCESS then (Inl Uninitialised, tr)
        else let (result, tr) = c_do_alloc C BigInt2 BIG_INT_LENGTH tr in
          if result \<noteq> teec_value TEEC_SUCCESS then (Inl Uninitialised, tr)
          else let (result, tr) = c_do_alloc C BigOut BIG_INT_LENGTH tr in
            if result \<noteq> teec_value TEEC_SUCCESS then (Inl Uninitialised, tr)
            else case c_demo_options C opts (c_operation tr) of (Inl f, d) \<Rightarrow> (Inl f, c_log d)
              | (Inr _, d) \<Rightarrow> (Inr (0, c_printed d),
                  [CeFinalize, CeClose, CeRelease BigOut, CeRelease BigInt2, CeRelease BigInt1] @ c_log d))"

subsection \<open>The protocol of the library\<close>

text \<open>
  The rules of \<open>tee_client_api.h\<close> as in \<open>TeeClient\<close>, for the three blocks of this version: one
  context, a session in it, blocks of the context that are released once each, a command only in
  the session with all three blocks allocated, and nothing left when the context is finalised.
\<close>

record c_state =
  c_context :: bool
  c_session :: bool
  c_blocks :: "c_block \<Rightarrow> memory"

definition c_idle :: c_state where
  "c_idle = \<lparr>c_context = False, c_session = False, c_blocks = (\<lambda>_. Unused)\<rparr>"

fun c_move :: "c_event \<Rightarrow> c_state \<Rightarrow> c_state option" where
  "c_move (CeInit h r) q = (if c_context q then None else Some (q\<lparr>c_context := (r = 0)\<rparr>))"
| "c_move (CeOpen u r) q =
     (if c_context q \<and> \<not> c_session q then Some (q\<lparr>c_session := (r = 0)\<rparr>) else None)"
| "c_move (CeAlloc b n r) q =
     (if c_context q \<and> c_blocks q b \<noteq> Held then Some (q\<lparr>c_blocks := (c_blocks q)(b := allocated r)\<rparr>) else None)"
| "c_move (CeInvoke c v i1 i2 n r) q =
     (if c_session q \<and> c_blocks q BigInt1 = Held \<and> c_blocks q BigInt2 = Held \<and> c_blocks q BigOut = Held
      then Some q else None)"
| "c_move (CeRelease b) q =
     (if c_context q \<and> c_blocks q b \<noteq> Unused then Some (q\<lparr>c_blocks := (c_blocks q)(b := Unused)\<rparr>) else None)"
| "c_move CeClose q = (if c_session q then Some (q\<lparr>c_session := False\<rparr>) else None)"
| "c_move CeFinalize q =
     (if c_context q \<and> \<not> c_session q \<and> c_blocks q BigInt1 \<noteq> Held \<and> c_blocks q BigInt2 \<noteq> Held \<and> c_blocks q BigOut \<noteq> Held
      then Some c_idle else None)"

fun c_replay :: "c_event list \<Rightarrow> c_state option" where
  "c_replay [] = Some c_idle"
| "c_replay (e # tr) = Option.bind (c_replay tr) (c_move e)"

definition c_open :: "c_event list \<Rightarrow> bool" where
  "c_open tr \<longleftrightarrow> c_replay tr = Some \<lparr>c_context = True, c_session = True, c_blocks = (\<lambda>_. Held)\<rparr>"

text \<open>The steps of the demonstration keep the session open with its blocks.\<close>

lemma open_c_invoke: "c_open (c_log d) \<Longrightarrow> c_open (c_log (snd (c_demo_invoke C cmd d)))"
  by (simp add: c_demo_invoke_def c_open_def split_beta Let_def)

lemma open_c_transmit:
  assumes "c_open (c_log d)"
  shows "c_open (c_log (snd (c_transmit C cmd data resp d)))"
proof (cases "mem_write (c_bigInt1 d) 0 data")
  case (Inr ibuf)
  let ?d = "d\<lparr>c_bigInt1 := ibuf, c_size1 := word_of_nat (length data)\<rparr>"
  obtain r d' where i: "c_demo_invoke C cmd ?d = (r, d')" by fastforce
  have "c_open (c_log (snd (c_demo_invoke C cmd ?d)))"
    using assms by (intro open_c_invoke) simp
  with Inr i show ?thesis by (auto simp: c_transmit_def split: sum.split)
qed (simp add: c_transmit_def assms)

lemma open_c_next:
  assumes "c_open (c_log (snd m))" and "\<And>resp d. c_open (c_log d) \<Longrightarrow> c_open (c_log (snd (k resp d)))"
  shows "c_open (c_log (snd (next_step m k)))"
  using assms by (auto simp: next_step_def split: prod.split sum.split)

lemma log_set_size3 [simp]: "c_log (set_size3 n d) = c_log d"
  by (simp add: set_size3_def)

lemma open_c_invoke_transmit: "c_open (c_log d) \<Longrightarrow> c_open (c_log (snd (c_invoke_transmit C d)))"
  unfolding c_invoke_transmit_def
  by (intro open_c_next open_c_transmit open_c_invoke) simp_all

lemma open_c_hal: "c_open (c_log d) \<Longrightarrow> c_open (c_log (snd (c_invoke_hal_transmit C cmd d)))"
  using open_c_transmit [of "set_size3 BIG_INT_LENGTH d" C HAL_TRANSMIT cmd "replicate 100 0"]
  by (auto simp: c_invoke_hal_transmit_def split: prod.split sum.split)

lemma open_c_options: "c_open (c_log d) \<Longrightarrow> c_open (c_log (snd (c_demo_options C os d)))"
proof (induction C os d rule: c_demo_options.induct)
  case (2 C os d)
  obtain r d' where i: "c_invoke_transmit C d = (r, d')" by fastforce
  with open_c_invoke_transmit [OF 2(2), of C] have "c_open (c_log d')" by simp
  with 2(1) [OF i [symmetric]] i show ?case by (auto split: sum.split)
next
  case (3 C os d)
  obtain r d' where i: "c_demo_invoke C ESESPI_TEST d = (r, d')" by fastforce
  with open_c_invoke [OF 3(2), of C ESESPI_TEST] have "c_open (c_log d')" by simp
  with 3(1) [OF i [symmetric]] i show ?case by (auto split: sum.split)
next
  case (4 C optarg os d)
  show ?case
  proof (cases "hexchar_to_byte 256 optarg")
    case (Inr hal_cmd)
    obtain r d' where i: "c_invoke_hal_transmit C hal_cmd d = (r, d')" by fastforce
    with open_c_hal [OF 4(2), of C hal_cmd] have "c_open (c_log d')" by simp
    with 4(1) [OF Inr i [symmetric]] i Inr show ?thesis by (auto split: sum.split)
  qed (simp add: 4)
qed simp_all

text \<open>Once the context is there, the program leaves nothing behind.\<close>

lemma c_session_idle:
  assumes "c_teeclientdemo C opts tr = (Inr x, tr')" and "c_replay tr = Some c_idle"
    and "c_initialize C tr hostName = 0"
  shows "c_replay tr' = Some c_idle"
proof (cases "c_open_session C (CeInit hostName 0 # tr) uuid_ta = 0")
  case False
  then show ?thesis
    using assms by (auto simp: c_teeclientdemo_def c_start_def c_idle_def Let_def
        C_INIT_CONTEXT_FAILED_def C_OPEN_SESSION_FAILED_def)
next
  case True
  let ?t = "CeAlloc BigOut BIG_INT_LENGTH 0 # CeAlloc BigInt2 BIG_INT_LENGTH 0 # CeAlloc BigInt1 BIG_INT_LENGTH 0 #
    CeOpen uuid_ta 0 # CeInit hostName 0 # tr"
  have three: "(\<lambda>_. Unused)(BigInt1 := Held, BigInt2 := Held, BigOut := Held) = (\<lambda>_. Held)"
  proof
    fix b show "((\<lambda>_. Unused)(BigInt1 := Held, BigInt2 := Held, BigOut := Held)) b = Held" by (cases b) simp_all
  qed
  have "c_open ?t" using assms(2) by (simp add: c_open_def c_idle_def allocated_def three)
  then have o: "c_open (c_log (snd (c_demo_options C opts (c_operation ?t))))"
    by (intro open_c_options) (simp add: c_operation_def)
  obtain d where d: "c_demo_options C opts (c_operation ?t) = (Inr (), d)"
    "tr' = [CeFinalize, CeClose, CeRelease BigOut, CeRelease BigInt2, CeRelease BigInt1] @ c_log d"
    using assms(1,3) True
    by (auto simp: c_teeclientdemo_def c_start_def c_do_alloc_def Let_def C_INIT_CONTEXT_FAILED_def
        C_OPEN_SESSION_FAILED_def split: if_splits sum.splits prod.splits)
  with o show ?thesis by (simp add: c_open_def)
qed

text \<open>When the context cannot be initialised, the session is opened all the same: if that succeeds
  the program returns with the session open, and if it fails the program finalises the context
  that it never had.\<close>

lemma failed_context_is_used:
  assumes "c_initialize C tr hostName = r" and "r \<noteq> 0"
    and "c_open_session C (CeInit hostName r # tr) uuid_ta = s"
  shows "c_teeclientdemo C opts tr = (Inr (0, []),
      (if s = 0 then [] else [CeFinalize]) @ [CeOpen uuid_ta s, CeInit hostName r] @ tr)"
proof -
  have "c_start C tr = (if s \<noteq> 0 then C_OPEN_SESSION_FAILED else C_INIT_CONTEXT_FAILED,
      [CeOpen uuid_ta s, CeInit hostName r] @ tr)"
    using assms by (auto simp: c_start_def Let_def)
  then show ?thesis
    by (simp add: c_teeclientdemo_def C_INIT_CONTEXT_FAILED_def C_OPEN_SESSION_FAILED_def)
qed

text \<open>C28.  The earlier version of the demonstration follows the rules of the library, and leaves no session,
  no block and no context behind, exactly when its context could be initialised: for every library
  and all options, a run that returns has kept the protocol and cleaned up in that case, and in the
  other case it has broken the protocol, since its \<open>init\<close> goes on after the failure.\<close>

theorem demo_c_cleans_up_iff:
  assumes "c_teeclientdemo C opts tr = (Inr (ret, out), tr')" and "c_replay tr = Some c_idle"
  shows "c_replay tr' = (if c_initialize C tr hostName = 0 then Some c_idle else None)"
proof (cases "c_initialize C tr hostName = 0")
  case True
  then show ?thesis using c_session_idle [OF assms] by simp
next
  case False
  from failed_context_is_used [OF refl this refl, of opts] assms False show ?thesis
    by (auto simp: c_idle_def split: if_splits)
qed

definition echo_c :: c_env where
  "echo_c = \<lparr>c_initialize = \<lambda>_ _. 0, c_open_session = \<lambda>_ _. 0, c_allocate = \<lambda>_ _ _. 0,
     c_invoke = \<lambda>_ _ v _ _ _. (0, v, [0x90, 0x00], 2)\<rparr>"

text \<open>A run of the self test, and a run without a context.\<close>

lemma demo_c_cleans_up_iff_witness:
  "(\<exists>out tr'. c_teeclientdemo echo_c [OptT] [] = (Inr (0, out), tr') \<and> c_replay tr' = Some c_idle) \<and>
   (\<exists>out tr'. c_teeclientdemo (echo_c\<lparr>c_initialize := \<lambda>_ _. 1\<rparr>) [OptT] [] = (Inr (0, out), tr') \<and> c_replay tr' = None)"
proof
  have "\<exists>out tr'. c_teeclientdemo echo_c [OptT] [] = (Inr (0, out), tr')"
    by (simp add: c_teeclientdemo_def c_start_def c_do_alloc_def echo_c_def c_demo_invoke_def c_operation_def
        C_INIT_CONTEXT_FAILED_def C_OPEN_SESSION_FAILED_def BIG_INT_LENGTH_def split_beta Let_def)
  then obtain out tr' where r: "c_teeclientdemo echo_c [OptT] [] = (Inr (0, out), tr')" by blast
  moreover have "c_replay tr' = Some c_idle"
    using demo_c_cleans_up_iff [OF r] by (simp add: echo_c_def)
  ultimately show "\<exists>out tr'. c_teeclientdemo echo_c [OptT] [] = (Inr (0, out), tr') \<and> c_replay tr' = Some c_idle" by blast
next
  let ?C = "echo_c\<lparr>c_initialize := \<lambda>_ _. 1\<rparr>"
  obtain tr' where r: "c_teeclientdemo ?C [OptT] [] = (Inr (0, []), tr')"
    using failed_context_is_used [of ?C "[]" 1 _ "[OptT]"] by (simp add: echo_c_def)
  moreover have "c_replay tr' = None" using demo_c_cleans_up_iff [OF r] by simp
  ultimately show "\<exists>out tr'. c_teeclientdemo ?C [OptT] [] = (Inr (0, out), tr') \<and> c_replay tr' = None" by blast
qed

end
