(* ===== verification/TeeOperation.thy ===== *)
theory TeeOperation
  imports TeeDemo
begin

text \<open>
  The types of \<open>tee_client_api.h\<close> that carry a command to the trusted application: parameter
  types and their packing, shared memory blocks, references to them, and the operation.  The
  exchange of \<open>TeeClient\<close> is refined to the one that fills in these structures field by field,
  and the invocations are checked against the rules the header states for an operation.
\<close>

subsection \<open>Parameter types\<close>

datatype teec_param_type =
    TEEC_NONE | TEEC_VALUE_INPUT | TEEC_VALUE_OUTPUT | TEEC_VALUE_INOUT
  | TEEC_MEMREF_TEMP_INPUT | TEEC_MEMREF_TEMP_OUTPUT | TEEC_MEMREF_TEMP_INOUT
  | TEEC_MEMREF_WHOLE
  | TEEC_MEMREF_PARTIAL_INPUT | TEEC_MEMREF_PARTIAL_OUTPUT | TEEC_MEMREF_PARTIAL_INOUT

fun param_value :: "teec_param_type \<Rightarrow> u32" where
  "param_value TEEC_NONE = 0x0"
| "param_value TEEC_VALUE_INPUT = 0x1"
| "param_value TEEC_VALUE_OUTPUT = 0x2"
| "param_value TEEC_VALUE_INOUT = 0x3"
| "param_value TEEC_MEMREF_TEMP_INPUT = 0x5"
| "param_value TEEC_MEMREF_TEMP_OUTPUT = 0x6"
| "param_value TEEC_MEMREF_TEMP_INOUT = 0x7"
| "param_value TEEC_MEMREF_WHOLE = 0xc"
| "param_value TEEC_MEMREF_PARTIAL_INPUT = 0xd"
| "param_value TEEC_MEMREF_PARTIAL_OUTPUT = 0xe"
| "param_value TEEC_MEMREF_PARTIAL_INOUT = 0xf"

definition teec_param_types :: "teec_param_type list" where
  "teec_param_types =
    [TEEC_NONE, TEEC_VALUE_INPUT, TEEC_VALUE_OUTPUT, TEEC_VALUE_INOUT, TEEC_MEMREF_TEMP_INPUT,
     TEEC_MEMREF_TEMP_OUTPUT, TEEC_MEMREF_TEMP_INOUT, TEEC_MEMREF_WHOLE, TEEC_MEMREF_PARTIAL_INPUT,
     TEEC_MEMREF_PARTIAL_OUTPUT, TEEC_MEMREF_PARTIAL_INOUT]"

text \<open>The type of parameter \<open>i\<close> in a packed word, the inverse of \<open>TEEC_PARAM_TYPES\<close>; not every
  value of four bits is a type.\<close>

definition param_kind :: "u32 \<Rightarrow> nat \<Rightarrow> teec_param_type option" where
  "param_kind w i = find (\<lambda>t. param_value t = take_bit 4 (drop_bit (4 * i) w)) teec_param_types"

lemma find_param_value: "find (\<lambda>t. param_value t = param_value t') teec_param_types = Some t'"
  by (cases t') (simp_all add: teec_param_types_def)

lemma param_value_bits: "bit (param_value t) n \<Longrightarrow> n < 4"
proof -
  assume b: "bit (param_value t) n"
  have "take_bit 4 (param_value t) = param_value t" by (cases t) simp_all
  with b have "bit (take_bit 4 (param_value t)) n" by simp
  then show "n < 4" by (simp add: bit_take_bit_iff)
qed

lemma unpack_packed:
  "map (param_kind (TEEC_PARAM_TYPES (param_value t0) (param_value t1) (param_value t2) (param_value t3)))
     [0..<4] = map Some [t0, t1, t2, t3]"
proof -
  let ?w = "TEEC_PARAM_TYPES (param_value t0) (param_value t1) (param_value t2) (param_value t3)"
  have "take_bit 4 ?w = param_value t0" "take_bit 4 (drop_bit 4 ?w) = param_value t1"
    "take_bit 4 (drop_bit 8 ?w) = param_value t2" "take_bit 4 (drop_bit 12 ?w) = param_value t3"
    by (rule bit_word_eqI, auto simp: TEEC_PARAM_TYPES_def bit_simps dest: param_value_bits)+
  then show ?thesis
    by (simp add: param_kind_def upt_rec find_param_value)
qed

text \<open>The packing of the parameter types loses nothing: the library reads back from the word
  made by \<open>TEEC_PARAM_TYPES\<close> the type of each of the four parameters.\<close>

lemma param_types_round_trip:
  "map (param_kind (TEEC_PARAM_TYPES (param_value t0) (param_value t1) (param_value t2) (param_value t3)))
     [0..<4] = map Some [t0, t1, t2, t3]"
  by (rule unpack_packed)

subsection \<open>Blocks, references and operations\<close>

definition TEEC_MEM_INPUT :: u32 where "TEEC_MEM_INPUT = 0x1"
definition TEEC_MEM_OUTPUT :: u32 where "TEEC_MEM_OUTPUT = 0x2"

text \<open>The field \<open>imp\<close> of the structures belongs to the library and is left out.\<close>

record TEEC_SharedMemory =
  sm_buffer :: "u8 list option"
  sm_size :: u32
  sm_flags :: u32

record TEEC_Value =
  val_a :: u32
  val_b :: u32

record TEEC_TempMemoryReference =
  tmp_buffer :: "u8 list option"
  tmp_size :: u32

text \<open>The parent of a reference is one of the two blocks, by its role.\<close>

record TEEC_RegisteredMemoryReference =
  parent :: block
  ref_size :: u32
  ref_offset :: u32

datatype TEEC_Parameter =
    Tmpref TEEC_TempMemoryReference
  | Memref TEEC_RegisteredMemoryReference
  | Value TEEC_Value

record TEEC_Operation =
  started :: u32
  paramTypes :: u32
  params :: "TEEC_Parameter list"

type_synonym blocks = "block \<Rightarrow> TEEC_SharedMemory"

text \<open>A structure set to zero; the zeros of a parameter are read as a value.\<close>

definition zero_memory :: TEEC_SharedMemory where
  "zero_memory = \<lparr>sm_buffer = None, sm_size = 0, sm_flags = 0\<rparr>"

definition zero_operation :: TEEC_Operation where
  "zero_operation = \<lparr>started = 0, paramTypes = 0, params = replicate 4 (Value \<lparr>val_a = 0, val_b = 0\<rparr>)\<rparr>"

text \<open>How the calls fill in an operation: an input and an output reference, with the given sizes.\<close>

definition hal_operation :: "u32 \<Rightarrow> u32 \<Rightarrow> TEEC_Operation" where
  "hal_operation insize outsize =
     (let op = zero_operation\<lparr>paramTypes := TEEC_PARAM_TYPES (param_value TEEC_MEMREF_PARTIAL_INPUT)
            (param_value TEEC_MEMREF_PARTIAL_OUTPUT) (param_value TEEC_NONE) (param_value TEEC_NONE)\<rparr>;
          op = op\<lparr>started := 1\<rparr>;
          op = op\<lparr>params := (params op)[0 := Memref \<lparr>parent = InputSm, ref_size = insize, ref_offset = 0\<rparr>]\<rparr>
      in op\<lparr>params := (params op)[1 := Memref \<lparr>parent = OutputSm, ref_size = outsize, ref_offset = 0\<rparr>]\<rparr>)"

lemma hal_operation_types:
  "map (param_kind (paramTypes (hal_operation n m))) [0..<4] =
     [Some TEEC_MEMREF_PARTIAL_INPUT, Some TEEC_MEMREF_PARTIAL_OUTPUT, Some TEEC_NONE, Some TEEC_NONE]"
  using unpack_packed [of TEEC_MEMREF_PARTIAL_INPUT TEEC_MEMREF_PARTIAL_OUTPUT TEEC_NONE TEEC_NONE]
  by (simp add: hal_operation_def Let_def del: upt_conv_Cons_Cons)

lemma four_times: "replicate 4 x = [x, x, x, x]"
  by (simp add: eval_nat_numeral)

lemma hal_operation_params:
  "params (hal_operation n m) =
     [Memref \<lparr>parent = InputSm, ref_size = n, ref_offset = 0\<rparr>, Memref \<lparr>parent = OutputSm, ref_size = m, ref_offset = 0\<rparr>,
      Value \<lparr>val_a = 0, val_b = 0\<rparr>, Value \<lparr>val_a = 0, val_b = 0\<rparr>]"
  by (simp add: hal_operation_def zero_operation_def Let_def four_times)

subsection \<open>Well-formed operations\<close>

text \<open>
  What the header asks of an operation: each parameter is of the kind its type says, a reference
  stays inside its block, and the flags of the block allow the direction.
\<close>

fun memref_ok :: "blocks \<Rightarrow> u32 \<Rightarrow> TEEC_Parameter \<Rightarrow> bool" where
  "memref_ok sms dir (Memref r) \<longleftrightarrow> sm_flags (sms (parent r)) AND dir = dir \<and>
     unat (ref_offset r) + unat (ref_size r) \<le> unat (sm_size (sms (parent r)))"
| "memref_ok sms dir _ \<longleftrightarrow> False"

fun param_ok :: "blocks \<Rightarrow> teec_param_type \<Rightarrow> TEEC_Parameter \<Rightarrow> bool" where
  "param_ok sms TEEC_NONE p \<longleftrightarrow> True"
| "param_ok sms TEEC_MEMREF_WHOLE p \<longleftrightarrow> (\<exists>r. p = Memref r)"
| "param_ok sms TEEC_MEMREF_PARTIAL_INPUT p \<longleftrightarrow> memref_ok sms TEEC_MEM_INPUT p"
| "param_ok sms TEEC_MEMREF_PARTIAL_OUTPUT p \<longleftrightarrow> memref_ok sms TEEC_MEM_OUTPUT p"
| "param_ok sms TEEC_MEMREF_PARTIAL_INOUT p \<longleftrightarrow> memref_ok sms (TEEC_MEM_INPUT OR TEEC_MEM_OUTPUT) p"
| "param_ok sms TEEC_VALUE_INPUT p \<longleftrightarrow> (\<exists>v. p = Value v)"
| "param_ok sms TEEC_VALUE_OUTPUT p \<longleftrightarrow> (\<exists>v. p = Value v)"
| "param_ok sms TEEC_VALUE_INOUT p \<longleftrightarrow> (\<exists>v. p = Value v)"
| "param_ok sms _ p \<longleftrightarrow> (\<exists>t. p = Tmpref t)"

definition operation_ok :: "blocks \<Rightarrow> TEEC_Operation \<Rightarrow> bool" where
  "operation_ok sms op \<longleftrightarrow>
     list_all2 (\<lambda>t p. t \<noteq> None \<and> param_ok sms (the t) p) (map (param_kind (paramTypes op)) [0..<4]) (params op)"

lemma operation_ok_hal:
  "operation_ok sms (hal_operation n m) \<longleftrightarrow>
     sm_flags (sms InputSm) AND TEEC_MEM_INPUT = TEEC_MEM_INPUT \<and> n \<le> sm_size (sms InputSm) \<and>
     sm_flags (sms OutputSm) AND TEEC_MEM_OUTPUT = TEEC_MEM_OUTPUT \<and> m \<le> sm_size (sms OutputSm)"
  unfolding operation_ok_def hal_operation_types hal_operation_params
  by (auto simp: word_le_nat_alt)

subsection \<open>The exchange, field by field\<close>

text \<open>What a fresh block contains is arbitrary: \<open>junk\<close>.\<close>

definition TEEC_AllocateSharedMemory :: "tee_env \<Rightarrow> (block \<Rightarrow> nat \<Rightarrow> u8) \<Rightarrow> block \<Rightarrow> blocks \<Rightarrow> tee_event list \<Rightarrow>
    (u32 \<times> blocks) \<times> tee_event list" where
  "TEEC_AllocateSharedMemory E junk b sms tr =
     (let (result, tr) = do_alloc E b (sm_size (sms b)) tr;
          buf = (if result = teec_value TEEC_SUCCESS then Some (map (junk b) [0..<unat (sm_size (sms b))]) else None)
      in ((result, sms(b := (sms b)\<lparr>sm_buffer := buf\<rparr>)), tr))"

text \<open>\<open>memcpy\<close> and \<open>memset\<close> into the buffer of a block.\<close>

definition block_write :: "block \<Rightarrow> u8 list \<Rightarrow> blocks \<Rightarrow> blocks outcome" where
  "block_write b bs sms = (case sm_buffer (sms b) of None \<Rightarrow> Inl NullDeref
     | Some buf \<Rightarrow> map_sum id (\<lambda>buf. sms(b := (sms b)\<lparr>sm_buffer := Some buf\<rparr>)) (mem_write buf 0 bs))"

text \<open>
  The command as the library takes it from the operation: parameter 0 is read, parameter 1
  written and its size updated.  An operation that breaks the rules of the header is a misuse.
\<close>

definition TEEC_InvokeCommand :: "tee_env \<Rightarrow> u32 \<Rightarrow> TEEC_Operation \<Rightarrow> blocks \<Rightarrow> tee_event list \<Rightarrow>
    (u32 \<times> TEEC_Operation \<times> blocks) outcome \<times> tee_event list" where
  "TEEC_InvokeCommand E cmd op sms tr =
     (if \<not> operation_ok sms op then (Inl ApiMisuse, tr)
      else case (params op ! 0, params op ! 1) of
        (Memref i, Memref out) \<Rightarrow>
          (case (sm_buffer (sms (parent i)), sm_buffer (sms (parent out))) of
             (Some ibuf, Some obuf) \<Rightarrow>
               (let off = unat (ref_offset out); n = unat (ref_size out);
                    ((result, window, m), tr) = do_invoke E cmd (take (unat (ref_size i)) (drop (unat (ref_offset i)) ibuf))
                      (ref_size out) (take n (drop off obuf)) tr;
                    sms = sms(parent out := (sms (parent out))\<lparr>sm_buffer :=
                      Some (take off obuf @ window @ drop (off + n) obuf)\<rparr>)
                in (Inr (result, op\<lparr>params := (params op)[1 := Memref (out\<lparr>ref_size := m\<rparr>)]\<rparr>, sms), tr))
           | _ \<Rightarrow> (Inl NullDeref, tr))
      | _ \<Rightarrow> (Inl ApiMisuse, tr))"

definition ca_exchange_op :: "tee_env \<Rightarrow> (block \<Rightarrow> nat \<Rightarrow> u8) \<Rightarrow> u32 outcome \<Rightarrow> (u32 \<Rightarrow> u8 list outcome) \<Rightarrow> u32 \<Rightarrow>
    (u8 list \<Rightarrow> u32 \<Rightarrow> 'm outcome) \<Rightarrow> 'm \<Rightarrow> tee_event list \<Rightarrow> (i32 \<times> 'm) outcome \<times> tee_event list" where
  "ca_exchange_op E junk insize inp outsize store mem tr =
     (let sms = (\<lambda>_. zero_memory); (ret, tr) = tee_start E tr in
      if ret = INIT_CONTEXT_FAILED then leave cleanup1 INIT_CONTEXT_FAILED mem tr
      else if ret = OPEN_SESSION_FAILED then leave cleanup2 OPEN_SESSION_FAILED mem tr
      else case insize of Inl f \<Rightarrow> (Inl f, tr)
      | Inr n \<Rightarrow>
        (let sms = sms(InputSm := zero_memory\<lparr>sm_size := n, sm_flags := TEEC_MEM_INPUT\<rparr>);
             ((result, sms), tr) = TEEC_AllocateSharedMemory E junk InputSm sms tr in
         if result \<noteq> teec_value TEEC_SUCCESS then leave cleanup4 result mem tr
         else case inp n of Inl f \<Rightarrow> (Inl f, tr) | Inr bs \<Rightarrow>
        (case block_write InputSm bs sms of Inl f \<Rightarrow> (Inl f, tr) | Inr sms \<Rightarrow>
        (let sms = sms(OutputSm := (sms OutputSm)\<lparr>sm_size := outsize, sm_flags := TEEC_MEM_OUTPUT\<rparr>);
             ((result, sms), tr) = TEEC_AllocateSharedMemory E junk OutputSm sms tr in
         if result \<noteq> teec_value TEEC_SUCCESS then leave cleanup5 result mem tr
         else case block_write OutputSm (replicate (unat outsize) 0) sms of Inl f \<Rightarrow> (Inl f, tr) | Inr sms \<Rightarrow>
        (let op = hal_operation (sm_size (sms InputSm)) (sm_size (sms OutputSm)) in
         case TEEC_InvokeCommand E HAL_TRANSMIT op sms tr of (Inl f, tr) \<Rightarrow> (Inl f, tr)
         | (Inr (result, op, sms), tr) \<Rightarrow>
             if result \<noteq> teec_value TEEC_SUCCESS then leave cleanup5 result mem tr
             else (case params op ! 1 of
                 Memref r \<Rightarrow> (case sm_buffer (sms (parent r)) of None \<Rightarrow> (Inl NullDeref, tr)
                   | Some obuf \<Rightarrow> (case store obuf (ref_size r) of Inl f \<Rightarrow> (Inl f, tr)
                     | Inr mem \<Rightarrow> leave cleanup5 result mem tr))
               | _ \<Rightarrow> (Inl ApiMisuse, tr)))))))"

lemma overwrite_all: "length bs = length buf \<Longrightarrow> mem_write buf 0 bs = Inr bs"
  by (simp add: mem_write_def)

lemma exchange_op_refines:
  assumes "\<And>n bs. inp n = Inr bs \<Longrightarrow> length bs = unat n"
  shows "ca_exchange_op E junk insize inp outsize store mem tr = ca_exchange E insize inp outsize store mem tr"
  using assms
  by (auto simp: ca_exchange_op_def ca_exchange_def TEEC_AllocateSharedMemory_def block_write_def
      do_alloc_def Let_def overwrite_all TEEC_InvokeCommand_def hal_operation_params
      operation_ok_hal split: prod.split sum.split)

definition ca_sendEseCommand_op :: "tee_env \<Rightarrow> (block \<Rightarrow> nat \<Rightarrow> u8) \<Rightarrow> u8 list option \<Rightarrow> u32 \<Rightarrow> u8 list option \<Rightarrow> u32 \<Rightarrow>
    tee_event list \<Rightarrow> (i32 \<times> u8 list option) outcome \<times> tee_event list" where
  "ca_sendEseCommand_op E junk cmd cmdLen rsp rspLen tr =
     (case (cmd, rsp) of
        (Some c, Some p) \<Rightarrow>
          if cmdLen = 0 \<or> rspLen = 0 then (Inr (- 1, rsp), tr)
          else ca_exchange_op E junk (cmd_len c) (tApdu c) rspLen
            (\<lambda>obuf rsize. map_sum id Some (store_rsp p obuf rsize)) rsp tr
      | _ \<Rightarrow> (Inr (- 1, rsp), tr))"

definition ca_getEseCplc_op :: "tee_env \<Rightarrow> (block \<Rightarrow> nat \<Rightarrow> u8) \<Rightarrow> u8 list option \<Rightarrow> u32 option \<Rightarrow> tee_event list \<Rightarrow>
    (i32 \<times> u8 list option \<times> u32 option) outcome \<times> tee_event list" where
  "ca_getEseCplc_op E junk cplc_buf cplc_len tr =
     (case cplc_buf of None \<Rightarrow> (Inr (- EINVAL, cplc_buf, cplc_len), tr)
      | Some buf \<Rightarrow> (case cplc_len of None \<Rightarrow> (Inl NullDeref, tr)
         | Some len \<Rightarrow>
            if len = 0 then (Inr (- EINVAL, cplc_buf, cplc_len), tr)
            else ca_exchange_op E junk (Inr (word_of_nat (length getCplc_cmd))) (\<lambda>n. mem_read getCplc_cmd 0 (unat n))
              len (store_cplc buf) (cplc_buf, cplc_len) tr))"

lemma read_exactly: "mem_read obj off n = Inr bs \<Longrightarrow> length bs = n"
  by (auto simp: mem_read_Inr)

text \<open>C5.  The calls use the library correctly, field by field: with shared memory descriptors,
  references and operations filled in as the code does it, whatever a fresh block contains, each
  call is the one of \<open>TeeClient\<close>, where a command is just the bytes that go in and come out.  In
  particular no operation breaks the rules of the header, and no block is used that is not there.\<close>

theorem calls_build_operations:
  "ca_sendEseCommand_op E junk cmd cmdLen rsp rspLen tr = ca_sendEseCommand E cmd cmdLen rsp rspLen tr \<and>
   ca_getEseCplc_op E junk buf len tr = ca_getEseCplc E buf len tr"
proof
  have "ca_exchange_op E junk insize (tApdu c) n store mem tr = ca_exchange E insize (tApdu c) n store mem tr"
    for c insize n store and mem :: "u8 list option"
    by (rule exchange_op_refines) (auto simp: tApdu_def dest: read_exactly)
  then show "ca_sendEseCommand_op E junk cmd cmdLen rsp rspLen tr = ca_sendEseCommand E cmd cmdLen rsp rspLen tr"
    by (simp add: ca_sendEseCommand_op_def ca_sendEseCommand_def split: option.split)
  have "ca_exchange_op E junk insize (\<lambda>n. mem_read getCplc_cmd 0 (unat n)) n store mem tr =
      ca_exchange E insize (\<lambda>n. mem_read getCplc_cmd 0 (unat n)) n store mem tr"
    for insize n store and mem :: "u8 list option \<times> u32 option"
    by (rule exchange_op_refines) (auto dest: read_exactly)
  then show "ca_getEseCplc_op E junk buf len tr = ca_getEseCplc E buf len tr"
    by (simp only: ca_getEseCplc_op_def ca_getEseCplc_def)
qed

subsection \<open>The operations of the demonstration\<close>

text \<open>Its two blocks of 256 bytes.\<close>

definition demo_blocks :: blocks where
  "demo_blocks b = zero_memory\<lparr>sm_size := BIG_INT_LENGTH,
     sm_flags := (case b of InputSm \<Rightarrow> TEEC_MEM_INPUT | OutputSm \<Rightarrow> TEEC_MEM_OUTPUT)\<rparr>"

lemma demo_operation_ok:
  "operation_ok demo_blocks (hal_operation n m) \<longleftrightarrow> n \<le> BIG_INT_LENGTH \<and> m \<le> BIG_INT_LENGTH"
  by (simp add: operation_ok_hal demo_blocks_def TEEC_MEM_INPUT_def TEEC_MEM_OUTPUT_def)

text \<open>The size of the output reference after the calls in a log: the one the library reported for the
  last invocation, which by the header may be larger than the one it was given.\<close>

fun left_size :: "tee_env \<Rightarrow> tee_event list \<Rightarrow> u32" where
  "left_size E [] = BIG_INT_LENGTH"
| "left_size E (TeInvoke cmd inp n r # tr) = snd (snd (tee_invoke E tr cmd inp n))"
| "left_size E (_ # tr) = left_size E tr"

text \<open>The commands before which the demonstration sets the size of the output reference.\<close>

definition resets_size :: "u32 \<Rightarrow> bool" where
  "resets_size cmd \<longleftrightarrow> cmd \<in> {CHANNEL_TRANSMIT, CLOSE_CHANNEL, HAL_TRANSMIT}"

fun sized :: "tee_env \<Rightarrow> tee_event list \<Rightarrow> bool" where
  "sized E [] \<longleftrightarrow> True"
| "sized E (TeInvoke cmd inp n r # tr) \<longleftrightarrow> sized E tr \<and> length inp \<le> 256 \<and>
     n = (if resets_size cmd then BIG_INT_LENGTH else left_size E tr)"
| "sized E (_ # tr) \<longleftrightarrow> sized E tr"

lemma sized_invocation:
  "sized E (newer @ TeInvoke cmd inp n r # older) \<Longrightarrow> length inp \<le> 256 \<and>
     n = (if resets_size cmd then BIG_INT_LENGTH else left_size E older)"
proof (induction newer)
  case (Cons e newer)
  then show ?case by (cases e) auto
qed simp

definition demo_sized :: "tee_env \<Rightarrow> demo \<Rightarrow> bool" where
  "demo_sized E d \<longleftrightarrow> length (bigInt1 d) = 256 \<and> size0 d \<le> BIG_INT_LENGTH \<and> sized E (dlog d)"

lemma sized_set_size1 [simp]: "demo_sized E (set_size1 n d) = demo_sized E d"
  by (simp add: demo_sized_def set_size1_def)

text \<open>An invocation is no misuse, and leaves the size that was reported.\<close>

lemma sized_demo_invoke:
  assumes "demo_sized E d" and "size1 d = (if resets_size cmd then BIG_INT_LENGTH else left_size E (dlog d))"
    and "demo_invoke E cmd d = (x, d')"
  shows "demo_sized E d' \<and> size1 d' = left_size E (dlog d') \<and> x \<noteq> Inl ApiMisuse"
proof -
  have "unat (size0 d) \<le> 256" using assms(1) by (simp add: demo_sized_def BIG_INT_LENGTH_def word_le_nat_alt)
  with assms show ?thesis
    by (auto simp: demo_invoke_def do_invoke_def demo_sized_def Let_def split: prod.splits if_splits)
qed

lemma sized_transmit:
  assumes "demo_sized E d" and "size1 d = (if resets_size cmd then BIG_INT_LENGTH else left_size E (dlog d))"
    and "transmit E cmd data resp d = (x, d')"
  shows "demo_sized E d' \<and> x \<noteq> Inl ApiMisuse \<and> (\<forall>y. x = Inr y \<longrightarrow> size1 d' = left_size E (dlog d'))"
proof (cases "mem_write (bigInt1 d) 0 data")
  case (Inr ibuf)
  let ?d = "d\<lparr>bigInt1 := ibuf, size0 := word_of_nat (length data)\<rparr>"
  have "length ibuf = 256" "length data \<le> 256"
    using Inr assms(1) by (auto simp: demo_sized_def mem_write_Inr)
  then have "demo_sized E ?d"
    using assms(1) by (simp add: demo_sized_def BIG_INT_LENGTH_def word_le_nat_alt unat_of_nat)
  moreover have "size1 ?d = (if resets_size cmd then BIG_INT_LENGTH else left_size E (dlog ?d))"
    using assms(2) by simp
  moreover obtain r d1 where i: "demo_invoke E cmd ?d = (r, d1)" by fastforce
  ultimately have "demo_sized E d1 \<and> size1 d1 = left_size E (dlog d1) \<and> r \<noteq> Inl ApiMisuse"
    by (rule sized_demo_invoke)
  with Inr i assms(3) show ?thesis
    by (auto simp: transmit_def demo_sized_def mem_read_def mem_write_def split: sum.splits if_splits)
qed (use assms in \<open>auto simp: transmit_def mem_write_def split: if_splits\<close>)

text \<open>What a part of the option loop keeps: unless it faults, the size is the one that was reported,
  and no fault is a misuse.\<close>

definition keeps_sized :: "tee_env \<Rightarrow> 'a outcome \<times> demo \<Rightarrow> bool" where
  "keeps_sized E m \<longleftrightarrow> (case m of (x, d) \<Rightarrow> demo_sized E d \<and> x \<noteq> Inl ApiMisuse \<and>
     (\<forall>y. x = Inr y \<longrightarrow> size1 d = left_size E (dlog d)))"

lemma keeps_next_step:
  assumes "keeps_sized E m" and "\<And>resp d. demo_sized E d \<Longrightarrow> size1 d = left_size E (dlog d) \<Longrightarrow> keeps_sized E (k resp d)"
  shows "keeps_sized E (next_step m k)"
proof -
  obtain x d where m: "m = (x, d)" by fastforce
  show ?thesis
  proof (cases x)
    case (Inl f)
    then show ?thesis using assms(1) m by (simp add: next_step_def keeps_sized_def)
  next
    case (Inr y)
    obtain result resp where y: "y = (result, resp)" by fastforce
    have d: "demo_sized E d" "size1 d = left_size E (dlog d)"
      using assms(1) m Inr by (simp_all add: keeps_sized_def)
    with assms(2) [OF d] m Inr y show ?thesis
      by (cases "result = 0") (simp_all add: next_step_def, simp add: keeps_sized_def)
  qed
qed

lemma keeps_transmit:
  assumes "demo_sized E d" and "resets_size cmd \<longrightarrow> size1 d = BIG_INT_LENGTH"
    and "\<not> resets_size cmd \<longrightarrow> size1 d = left_size E (dlog d)"
  shows "keeps_sized E (transmit E cmd data resp d)"
proof -
  obtain x d' where t: "transmit E cmd data resp d = (x, d')" by fastforce
  from assms have "size1 d = (if resets_size cmd then BIG_INT_LENGTH else left_size E (dlog d))" by simp
  from sized_transmit [OF assms(1) this t] t show ?thesis by (simp add: keeps_sized_def)
qed

lemma keeps_invoke:
  assumes "demo_sized E d" and "resets_size cmd \<longrightarrow> size1 d = BIG_INT_LENGTH"
    and "\<not> resets_size cmd \<longrightarrow> size1 d = left_size E (dlog d)"
  shows "keeps_sized E (demo_invoke E cmd d)"
proof -
  obtain x d' where t: "demo_invoke E cmd d = (x, d')" by fastforce
  from assms have "size1 d = (if resets_size cmd then BIG_INT_LENGTH else left_size E (dlog d))" by simp
  from sized_demo_invoke [OF assms(1) this t] t show ?thesis by (simp add: keeps_sized_def)
qed

lemma resets [simp]:
  "resets_size CHANNEL_TRANSMIT" "resets_size CLOSE_CHANNEL" "resets_size HAL_TRANSMIT"
  "\<not> resets_size OPEN_LOGICAL_CHANNEL" "\<not> resets_size ESESPI_TEST"
  by (simp_all add: resets_size_def CHANNEL_TRANSMIT_def CLOSE_CHANNEL_def HAL_TRANSMIT_def
      OPEN_LOGICAL_CHANNEL_def ESESPI_TEST_def)

lemma size1_set [simp]: "size1 (set_size1 n d) = n"
  by (simp add: set_size1_def)

lemma keeps_invoke_transmit:
  "demo_sized E d \<Longrightarrow> size1 d = left_size E (dlog d) \<Longrightarrow> keeps_sized E (invoke_transmit E d)"
  unfolding invoke_transmit_def
  by (intro keeps_next_step keeps_transmit keeps_invoke) simp_all

lemma keeps_invoke_hal: "demo_sized E d \<Longrightarrow> keeps_sized E (invoke_hal_transmit E cmd d)"
  using keeps_transmit [of E "set_size1 BIG_INT_LENGTH d" HAL_TRANSMIT cmd "replicate 100 0"]
  by (auto simp: invoke_hal_transmit_def keeps_sized_def split: prod.splits sum.splits)

lemma keeps_options:
  "demo_sized E d \<Longrightarrow> size1 d = left_size E (dlog d) \<Longrightarrow> keeps_sized E (demo_options E os d)"
proof (induction E os d rule: demo_options.induct)
  case (2 E os d)
  obtain r d' where i: "invoke_transmit E d = (r, d')" by fastforce
  with keeps_invoke_transmit [OF 2(2,3)] 2(1) [OF i [symmetric]] show ?case
    by (auto simp: keeps_sized_def split: sum.splits)
next
  case (3 E os d)
  obtain r d' where i: "demo_invoke E ESESPI_TEST d = (r, d')" by fastforce
  from keeps_invoke [OF 3(2), of ESESPI_TEST] 3(3) i have k: "keeps_sized E (r, d')" by simp
  show ?case
  proof (cases r)
    case (Inr ret)
    from k have "demo_sized E (d'\<lparr>printed := p\<rparr>)" "size1 (d'\<lparr>printed := p\<rparr>) = left_size E (dlog (d'\<lparr>printed := p\<rparr>))" for p
      by (simp_all add: keeps_sized_def demo_sized_def Inr)
    with 3(1) [OF i [symmetric] Inr] i Inr show ?thesis by simp
  qed (use k i in \<open>auto simp: keeps_sized_def\<close>)
next
  case (4 E optarg os d)
  show ?case
  proof (cases "hexchar_to_byte 256 optarg")
    case (Inl f)
    have "hexchar_to_byte cap cs = Inl f \<Longrightarrow> f = OutOfBounds" for cap cs
      by (induction cap cs rule: hexchar_to_byte.induct) (auto split: if_splits)
    with Inl 4 show ?thesis by (auto simp: keeps_sized_def)
  next
    case (Inr hal_cmd)
    obtain r d' where i: "invoke_hal_transmit E hal_cmd d = (r, d')" by fastforce
    with keeps_invoke_hal [OF 4(2), of hal_cmd] 4(1) [OF Inr i [symmetric]] Inr show ?thesis
      by (auto simp: keeps_sized_def split: sum.splits)
  qed
qed (simp_all add: keeps_sized_def)

lemma sized_start: "sized E tr \<Longrightarrow> tee_start E tr = (r, tr') \<Longrightarrow> sized E tr' \<and> left_size E tr' = left_size E tr"
  by (auto simp: tee_start_def do_init_def do_tee_open_def Let_def split: if_splits)

text \<open>C24.  The operations of the demonstration, for every library and all options: no command is
  invoked with an input reference that reaches behind its block; the size of the output reference
  is that of the block for a channel or HAL command and for the close, and for the opening of the
  logical channel and the self test it is whatever the library reported for the last command
  before; and so an operation breaks the rules of the header exactly if that size is larger than
  the block.\<close>

theorem demo_operations_typed:
  "fst (teeclientdemo E opts []) \<noteq> Inl ApiMisuse \<and>
   (\<forall>newer cmd inp n r older. snd (teeclientdemo E opts []) = newer @ TeInvoke cmd inp n r # older \<longrightarrow>
      n = (if cmd \<in> {CHANNEL_TRANSMIT, CLOSE_CHANNEL, HAL_TRANSMIT} then BIG_INT_LENGTH else left_size E older) \<and>
      (operation_ok demo_blocks (hal_operation (word_of_nat (length inp)) n) \<longleftrightarrow> n \<le> BIG_INT_LENGTH))"
proof -
  let ?d = "\<lambda>tr. \<lparr>bigInt1 = 0 # replicate 255 0xFF, size0 = BIG_INT_LENGTH, bigOut = replicate 256 0,
    size1 = BIG_INT_LENGTH, dlog = tr, printed = [Message ''Usage:./teeclientdemo -c -t -i data'']\<rparr>"
  have opts: "keeps_sized E (demo_options E opts (?d t))" if "sized E t" "left_size E t = BIG_INT_LENGTH" for t
    using that by (intro keeps_options) (simp_all add: demo_sized_def)
  obtain ret tr1 where s: "tee_start E [] = (ret, tr1)" by fastforce
  have "sized E tr1" "left_size E tr1 = BIG_INT_LENGTH" using sized_start [OF _ s] by simp_all
  then have "sized E (snd (teeclientdemo E opts [])) \<and> fst (teeclientdemo E opts []) \<noteq> Inl ApiMisuse"
    using opts [of "TeAlloc OutputSm BIG_INT_LENGTH 0 # TeAlloc InputSm BIG_INT_LENGTH 0 # tr1"]
    by (auto simp: teeclientdemo_def s do_alloc_def Let_def keeps_sized_def demo_sized_def split: prod.split sum.split)
  moreover have "operation_ok demo_blocks (hal_operation (word_of_nat (length inp)) n) \<longleftrightarrow> n \<le> BIG_INT_LENGTH"
    if "length inp \<le> 256" for inp :: "u8 list" and n
    using that by (simp add: demo_operation_ok BIG_INT_LENGTH_def word_le_nat_alt unat_of_nat)
  ultimately show ?thesis using sized_invocation by (fastforce simp: resets_size_def)
qed

lemma demo_operations_typed_witness:
  "\<exists>newer inp older. snd (teeclientdemo echo_tee [OptT] []) = newer @ TeInvoke ESESPI_TEST inp BIG_INT_LENGTH 0 # older \<and>
     operation_ok demo_blocks (hal_operation (word_of_nat (length inp)) BIG_INT_LENGTH)"
proof -
  let ?newer = "[TeFinalize, TeClose, TeRelease OutputSm, TeRelease InputSm]"
  have "\<exists>inp older. snd (teeclientdemo echo_tee [OptT] []) = ?newer @ TeInvoke ESESPI_TEST inp BIG_INT_LENGTH 0 # older"
    by (simp add: teeclientdemo_def tee_start_def do_init_def do_tee_open_def do_alloc_def echo_tee_def
        demo_invoke_def do_invoke_def INIT_CONTEXT_FAILED_def OPEN_SESSION_FAILED_def BIG_INT_LENGTH_def split_beta Let_def)
  then obtain inp older where log: "snd (teeclientdemo echo_tee [OptT] []) = ?newer @ TeInvoke ESESPI_TEST inp BIG_INT_LENGTH 0 # older"
    by blast
  with demo_operations_typed [of echo_tee "[OptT]"]
  have "operation_ok demo_blocks (hal_operation (word_of_nat (length inp)) BIG_INT_LENGTH)" by blast
  with log show ?thesis by blast
qed

lemma hex_length: "hexchar_to_byte cap cs = Inr bs \<Longrightarrow> length bs \<le> cap"
  by (induction cap cs arbitrary: bs rule: hexchar_to_byte.induct) (auto split: if_splits)

text \<open>The size can indeed be too large: a library that refuses a command because its answer is too
  long reports the size it wants, and a self test after that is invoked with this size.\<close>

lemma failed_command_leaves_size:
  assumes "hexchar_to_byte 256 s = Inr cmd" and "length (bigInt1 d) = 256"
    and "tee_invoke E (dlog d) HAL_TRANSMIT cmd BIG_INT_LENGTH = (r, ws, m)" and "r \<noteq> 0"
  shows "\<exists>d' r'. demo_options E [OptI s, OptT] d = (Inr (), d') \<and> hd (dlog d') = TeInvoke ESESPI_TEST cmd m r' \<and>
    (operation_ok demo_blocks (hal_operation (word_of_nat (length cmd)) m) \<longleftrightarrow> m \<le> BIG_INT_LENGTH)"
proof -
  have "length cmd \<le> 256" using hex_length [OF assms(1)] .
  then have w: "unat (word_of_nat (length cmd) :: u32) = length cmd" "word_of_nat (length cmd) \<le> BIG_INT_LENGTH"
    by (simp_all add: unat_of_nat BIG_INT_LENGTH_def word_le_nat_alt)
  have m: "mem_write (bigInt1 d) 0 cmd = Inr (cmd @ drop (length cmd) (bigInt1 d))"
    using \<open>length cmd \<le> 256\<close> assms(2) by (simp add: mem_write_def)
  show ?thesis
    using assms w m
    by (auto simp: invoke_hal_transmit_def transmit_def set_size1_def demo_invoke_def do_invoke_def
        split_beta Let_def demo_operation_ok)
qed

text \<open>A trusted application that wants 300 bytes for every answer.\<close>

definition greedy_tee :: tee_env where
  "greedy_tee = echo_tee\<lparr>tee_invoke := (\<lambda>_ _ _ _. (teec_value TEEC_ERROR_SHORT_BUFFER, [], 300))\<rparr>"

definition fresh_demo :: demo where
  "fresh_demo = \<lparr>bigInt1 = replicate 256 0xFF, size0 = BIG_INT_LENGTH, bigOut = replicate 256 0,
     size1 = BIG_INT_LENGTH, dlog = [], printed = []\<rparr>"

lemma failed_command_leaves_size_witness:
  "\<exists>d' r. demo_options greedy_tee [OptI ''00'', OptT] fresh_demo = (Inr (), d') \<and>
     hd (dlog d') = TeInvoke ESESPI_TEST [0] 300 r"
proof -
  have "hexchar_to_byte 256 ''00'' = Inr [0]" by (simp add: char_to_byte_def)
  from failed_command_leaves_size [OF this, of fresh_demo greedy_tee "teec_value TEEC_ERROR_SHORT_BUFFER" "[]" 300]
  show ?thesis by (auto simp: fresh_demo_def greedy_tee_def BIG_INT_LENGTH_def)
qed

end
