(* ===== verification/TeeList.thy ===== *)
theory TeeList
  imports Prelude
begin

text \<open>
  The circular doubly linked list of \<open>libese_spi_client/include/tee_client_api.h\<close>
  (\<open>struct list\<close> and its inline functions), in which a TEE context keeps its sessions and its
  shared memory blocks.  The memory is a partial map from addresses to nodes, so that the
  aliasing of the pointers is that of the code; a pointer to anything else is a fault.
\<close>

subsection \<open>Memory\<close>

record lnode =
  lnext :: nat
  lprev :: nat

type_synonym heap = "nat \<rightharpoonup> lnode"

definition LIST_POISON_PREV :: nat where "LIST_POISON_PREV = 0xDEADBEEF"
definition LIST_POISON_NEXT :: nat where "LIST_POISON_NEXT = 0xFADEBABE"

definition chain :: "'a outcome \<Rightarrow> ('a \<Rightarrow> 'b outcome) \<Rightarrow> 'b outcome" where
  "chain m k = (case m of Inl f \<Rightarrow> Inl f | Inr x \<Rightarrow> k x)"

lemma chain_simps [simp]: "chain (Inl f) k = Inl f" "chain (Inr x) k = k x"
  by (simp_all add: chain_def)

definition get_next :: "nat \<Rightarrow> heap \<Rightarrow> nat outcome" where
  "get_next p h = (case h p of None \<Rightarrow> Inl WildPointer | Some n \<Rightarrow> Inr (lnext n))"

definition get_prev :: "nat \<Rightarrow> heap \<Rightarrow> nat outcome" where
  "get_prev p h = (case h p of None \<Rightarrow> Inl WildPointer | Some n \<Rightarrow> Inr (lprev n))"

definition set_next :: "nat \<Rightarrow> nat \<Rightarrow> heap \<Rightarrow> heap outcome" where
  "set_next p v h = (case h p of None \<Rightarrow> Inl WildPointer | Some n \<Rightarrow> Inr (h(p \<mapsto> n\<lparr>lnext := v\<rparr>)))"

definition set_prev :: "nat \<Rightarrow> nat \<Rightarrow> heap \<Rightarrow> heap outcome" where
  "set_prev p v h = (case h p of None \<Rightarrow> Inl WildPointer | Some n \<Rightarrow> Inr (h(p \<mapsto> n\<lparr>lprev := v\<rparr>)))"

subsection \<open>Operations\<close>

definition INIT_LIST_HEAD :: "nat \<Rightarrow> heap \<Rightarrow> heap outcome" where
  "INIT_LIST_HEAD ptr h = chain (set_next ptr ptr h) (set_prev ptr ptr)"

text \<open>\<open>__list_add\<close> and \<open>__list_del\<close>.\<close>

definition list_add_between :: "nat \<Rightarrow> nat \<Rightarrow> nat \<Rightarrow> heap \<Rightarrow> heap outcome" where
  "list_add_between prev next new0 h =
     chain (set_prev new0 prev h) (\<lambda>h.
     chain (set_next new0 next h) (\<lambda>h.
     chain (set_next prev new0 h) (set_prev next new0)))"

definition list_add :: "nat \<Rightarrow> nat \<Rightarrow> heap \<Rightarrow> heap outcome" where
  "list_add head new0 h = chain (get_next head h) (\<lambda>n. list_add_between head n new0 h)"

definition list_add_tail :: "nat \<Rightarrow> nat \<Rightarrow> heap \<Rightarrow> heap outcome" where
  "list_add_tail tnode new0 h = chain (get_prev tnode h) (\<lambda>p. list_add_between p tnode new0 h)"

definition list_del_between :: "nat \<Rightarrow> nat \<Rightarrow> nat \<Rightarrow> heap \<Rightarrow> heap outcome" where
  "list_del_between node prev next h =
     chain (get_next node h) (\<lambda>n. chain (set_next prev n h) (\<lambda>h.
     chain (get_prev node h) (\<lambda>p. chain (set_prev next p h) (\<lambda>h.
     chain (set_next node LIST_POISON_NEXT h) (set_prev node LIST_POISON_PREV)))))"

definition list_del :: "nat \<Rightarrow> heap \<Rightarrow> heap outcome" where
  "list_del node h =
     chain (get_prev node h) (\<lambda>p. chain (get_next node h) (\<lambda>n. list_del_between node p n h))"

definition list_pop_tail :: "nat \<Rightarrow> heap \<Rightarrow> (nat \<times> heap) outcome" where
  "list_pop_tail head h = chain (get_prev head h) (\<lambda>dnode.
     chain (get_prev head h) (\<lambda>p. map_sum id (Pair dnode) (list_del p h)))"

definition list_pop :: "nat \<Rightarrow> heap \<Rightarrow> (nat \<times> heap) outcome" where
  "list_pop head h = chain (get_next head h) (\<lambda>dnode.
     chain (get_next head h) (\<lambda>n. map_sum id (Pair dnode) (list_del n h)))"

definition list_empty :: "nat \<Rightarrow> heap \<Rightarrow> bool outcome" where
  "list_empty head h = map_sum id (\<lambda>n. n = head) (get_next head h)"

text \<open>
  \<open>list_for_each\<close> with a body that leaves the list alone: the nodes it visits.  A damaged list
  may be walked forever, which is \<open>None\<close>.
\<close>

partial_function (option) list_walk :: "nat \<Rightarrow> nat \<Rightarrow> heap \<Rightarrow> nat list outcome option" where
  "list_walk head cur h =
     (if cur = head then Some (Inr [])
      else case get_next cur h of Inl f \<Rightarrow> Some (Inl f)
        | Inr n \<Rightarrow> Option.bind (list_walk head n h) (\<lambda>r. Some (map_sum id ((#) cur) r)))"

definition list_for_each :: "nat \<Rightarrow> heap \<Rightarrow> nat list outcome option" where
  "list_for_each head h =
     (case get_next head h of Inl f \<Rightarrow> Some (Inl f) | Inr n \<Rightarrow> list_walk head n h)"

subsection \<open>The two pointer fields\<close>

definition nxt :: "heap \<Rightarrow> nat \<rightharpoonup> nat" where "nxt h x = map_option lnext (h x)"
definition prv :: "heap \<Rightarrow> nat \<rightharpoonup> nat" where "prv h x = map_option lprev (h x)"

lemma get_next_Inr: "get_next p h = Inr n \<longleftrightarrow> nxt h p = Some n"
  by (auto simp: get_next_def nxt_def split: option.splits)

lemma get_prev_Inr: "get_prev p h = Inr n \<longleftrightarrow> prv h p = Some n"
  by (auto simp: get_prev_def prv_def split: option.splits)

lemma field_dom: "nxt h p = Some n \<Longrightarrow> p \<in> dom h" "prv h p = Some n \<Longrightarrow> p \<in> dom h"
  by (auto simp: nxt_def prv_def)

lemma set_next_ok:
  assumes "p \<in> dom h"
  obtains h' where "set_next p v h = Inr h'" "nxt h' = (nxt h)(p \<mapsto> v)" "prv h' = prv h" "dom h' = dom h"
proof -
  from assms obtain n where n: "h p = Some n" by blast
  show thesis
    by (rule that [of "h(p \<mapsto> n\<lparr>lnext := v\<rparr>)"]) (use n in \<open>auto simp: set_next_def nxt_def prv_def fun_eq_iff\<close>)
qed

lemma set_prev_ok:
  assumes "p \<in> dom h"
  obtains h' where "set_prev p v h = Inr h'" "prv h' = (prv h)(p \<mapsto> v)" "nxt h' = nxt h" "dom h' = dom h"
proof -
  from assms obtain n where n: "h p = Some n" by blast
  show thesis
    by (rule that [of "h(p \<mapsto> n\<lparr>lprev := v\<rparr>)"]) (use n in \<open>auto simp: set_prev_def nxt_def prv_def fun_eq_iff\<close>)
qed

lemma add_between_ok:
  assumes "prev \<in> dom h" and "next \<in> dom h" and "new0 \<in> dom h"
  obtains h' where "list_add_between prev next new0 h = Inr h'"
    "nxt h' = (nxt h)(new0 \<mapsto> next, prev \<mapsto> new0)" "prv h' = (prv h)(new0 \<mapsto> prev, next \<mapsto> new0)" "dom h' = dom h"
proof -
  obtain h1 where 1: "set_prev new0 prev h = Inr h1" "prv h1 = (prv h)(new0 \<mapsto> prev)" "nxt h1 = nxt h" "dom h1 = dom h"
    using set_prev_ok assms(3) by blast
  obtain h2 where 2: "set_next new0 next h1 = Inr h2" "nxt h2 = (nxt h1)(new0 \<mapsto> next)" "prv h2 = prv h1" "dom h2 = dom h1"
    using set_next_ok assms(3) 1(4) by metis
  obtain h3 where 3: "set_next prev new0 h2 = Inr h3" "nxt h3 = (nxt h2)(prev \<mapsto> new0)" "prv h3 = prv h2" "dom h3 = dom h2"
    using set_next_ok assms(1) 1(4) 2(4) by metis
  obtain h4 where 4: "set_prev next new0 h3 = Inr h4" "prv h4 = (prv h3)(next \<mapsto> new0)" "nxt h4 = nxt h3" "dom h4 = dom h3"
    using set_prev_ok assms(2) 1(4) 2(4) 3(4) by metis
  show thesis by (rule that [of h4]) (simp_all add: list_add_between_def 1 2 3 4)
qed

lemma del_ok:
  assumes "nxt h x = Some n" and "prv h x = Some p" and "p \<in> dom h" and "n \<in> dom h"
  obtains h' where "list_del x h = Inr h'"
    "nxt h' = (nxt h)(p \<mapsto> n, x \<mapsto> LIST_POISON_NEXT)"
    "prv h' = (prv h)(n \<mapsto> p, x \<mapsto> LIST_POISON_PREV)" "dom h' = dom h"
proof -
  have x: "x \<in> dom h" using assms(1) by (rule field_dom)
  obtain h1 where 1: "set_next p n h = Inr h1" "nxt h1 = (nxt h)(p \<mapsto> n)" "prv h1 = prv h" "dom h1 = dom h"
    using set_next_ok assms(3) by blast
  obtain h2 where 2: "set_prev n p h1 = Inr h2" "prv h2 = (prv h1)(n \<mapsto> p)" "nxt h2 = nxt h1" "dom h2 = dom h1"
    using set_prev_ok assms(4) 1(4) by metis
  obtain h3 where 3: "set_next x LIST_POISON_NEXT h2 = Inr h3" "nxt h3 = (nxt h2)(x \<mapsto> LIST_POISON_NEXT)"
      "prv h3 = prv h2" "dom h3 = dom h2"
    using set_next_ok x 1(4) 2(4) by metis
  obtain h4 where 4: "set_prev x LIST_POISON_PREV h3 = Inr h4" "prv h4 = (prv h3)(x \<mapsto> LIST_POISON_PREV)"
      "nxt h4 = nxt h3" "dom h4 = dom h3"
    using set_prev_ok x 1(4) 2(4) 3(4) by metis
  have g: "get_next x h = Inr n" "get_prev x h = Inr p" "get_prev x h1 = Inr p"
    using assms(1,2) 1(3) by (simp_all add: get_next_Inr get_prev_Inr)
  show thesis by (rule that [of h4]) (simp_all add: list_del_def list_del_between_def g 1 2 3 4)
qed

subsection \<open>Linked sequences\<close>

text \<open>Neighbours in the sequence are linked in both directions.\<close>

fun links :: "heap \<Rightarrow> nat list \<Rightarrow> bool" where
  "links h (x # y # zs) \<longleftrightarrow> nxt h x = Some y \<and> prv h y = Some x \<and> links h (y # zs)"
| "links h _ \<longleftrightarrow> True"

lemma links_split: "links h (xs @ y # ys) \<longleftrightarrow> links h (xs @ [y]) \<and> links h (y # ys)"
proof (induction xs)
  case (Cons x xs)
  then show ?case by (cases xs) auto
qed simp

lemma links_cong:
  assumes "\<And>x. x \<in> set (butlast xs) \<Longrightarrow> nxt h' x = nxt h x" and "\<And>x. x \<in> set (tl xs) \<Longrightarrow> prv h' x = prv h x"
  shows "links h' xs = links h xs"
  using assms
proof (induction h xs rule: links.induct)
  case (1 h x y zs)
  then have "links h' (y # zs) = links h (y # zs)" by (cases zs) auto
  with 1 show ?case by simp
qed simp_all

text \<open>What is needed to change a sequence between \<open>a\<close> and \<open>b\<close>: only its ends may coincide.\<close>

definition once :: "nat list \<Rightarrow> bool" where
  "once xs \<longleftrightarrow> distinct (butlast xs) \<and> distinct (tl xs)"

lemma once_ends:
  "once (P @ a # b # S) \<Longrightarrow> a \<notin> set P" "once (P @ a # b # S) \<Longrightarrow> a \<notin> set (butlast (b # S))"
  "once (P @ a # b # S) \<Longrightarrow> b \<notin> set (tl (P @ [a]))" "once (P @ a # b # S) \<Longrightarrow> b \<notin> set S"
  by (cases P; simp add: once_def butlast_append; blast)+

text \<open>A change at the fields of \<open>a\<close>, \<open>b\<close> and \<open>x\<close> leaves the links before \<open>a\<close> and behind \<open>b\<close> alone.\<close>

lemma links_outside:
  assumes "once (P @ a # b # S)" and "x \<notin> set (P @ a # b # S)"
    and "\<And>y. y \<noteq> a \<Longrightarrow> y \<noteq> x \<Longrightarrow> nxt h' y = nxt h y" and "\<And>y. y \<noteq> b \<Longrightarrow> y \<noteq> x \<Longrightarrow> prv h' y = prv h y"
  shows "links h' (P @ [a]) = links h (P @ [a])" "links h' (b # S) = links h (b # S)"
proof -
  note o = once_ends [OF assms(1)]
  show "links h' (P @ [a]) = links h (P @ [a])"
  proof (rule links_cong)
    fix y
    show "y \<in> set (butlast (P @ [a])) \<Longrightarrow> nxt h' y = nxt h y"
      using o(1) assms(2) by (intro assms(3)) auto
    assume "y \<in> set (tl (P @ [a]))"
    moreover from this have "y \<in> set (P @ [a])" by (cases P) auto
    ultimately show "prv h' y = prv h y"
      using o(3) assms(2) by (intro assms(4)) auto
  qed
  show "links h' (b # S) = links h (b # S)"
  proof (rule links_cong)
    fix y
    assume "y \<in> set (butlast (b # S))"
    moreover from this have "y \<in> set (b # S)" by (rule in_set_butlastD)
    ultimately show "nxt h' y = nxt h y"
      using o(2) assms(2) by (intro assms(3)) auto
  next
    fix y
    show "y \<in> set (tl (b # S)) \<Longrightarrow> prv h' y = prv h y"
      using o(4) assms(2) by (intro assms(4)) auto
  qed
qed

lemma links_insert:
  assumes "links h (P @ a # b # S)" and "once (P @ a # b # S)" and "x \<notin> set (P @ a # b # S)" and "x \<in> dom h"
  obtains h' where "list_add_between a b x h = Inr h'" "links h' (P @ a # x # b # S)" "dom h' = dom h"
proof -
  have l: "links h (P @ [a])" "nxt h a = Some b" "prv h b = Some a" "links h (b # S)"
    using assms(1) [THEN links_split [THEN iffD1]] by simp_all
  obtain h' where h': "list_add_between a b x h = Inr h'" "nxt h' = (nxt h)(x \<mapsto> b, a \<mapsto> x)"
      "prv h' = (prv h)(x \<mapsto> a, b \<mapsto> x)" "dom h' = dom h"
    using add_between_ok [of a h b x] field_dom(1) [OF l(2)] field_dom(2) [OF l(3)] assms(4) by blast
  have "a \<noteq> x" "b \<noteq> x" using assms(3) by auto
  have n: "nxt h' y = nxt h y" if "y \<noteq> a" "y \<noteq> x" for y using that by (simp add: h'(2))
  have p: "prv h' y = prv h y" if "y \<noteq> b" "y \<noteq> x" for y using that by (simp add: h'(3))
  have "links h' (P @ [a])" "links h' (b # S)"
    using l(1) l(4) links_outside [OF assms(2,3) n p] by blast+
  then have "links h' (P @ a # x # b # S)"
    using \<open>a \<noteq> x\<close> \<open>b \<noteq> x\<close> by (intro links_split [THEN iffD2]) (simp add: h'(2,3))
  with h' that show thesis by blast
qed

lemma links_delete:
  assumes "links h (P @ a # x # b # S)" and "once (P @ a # b # S)" and "x \<notin> set (P @ a # b # S)"
  obtains h' where "list_del x h = Inr h'" "links h' (P @ a # b # S)" "dom h' = dom h"
proof -
  have l: "links h (P @ [a])" "nxt h a = Some x" "prv h x = Some a" "nxt h x = Some b" "prv h b = Some x" "links h (b # S)"
    using assms(1) [THEN links_split [THEN iffD1]] by simp_all
  obtain h' where h': "list_del x h = Inr h'" "nxt h' = (nxt h)(a \<mapsto> b, x \<mapsto> LIST_POISON_NEXT)"
      "prv h' = (prv h)(b \<mapsto> a, x \<mapsto> LIST_POISON_PREV)" "dom h' = dom h"
    using del_ok [OF l(4,3)] field_dom(1) [OF l(2)] field_dom(2) [OF l(5)] by blast
  have "a \<noteq> x" "b \<noteq> x" using assms(3) by auto
  have n: "nxt h' y = nxt h y" if "y \<noteq> a" "y \<noteq> x" for y using that by (simp add: h'(2))
  have p: "prv h' y = prv h y" if "y \<noteq> b" "y \<noteq> x" for y using that by (simp add: h'(3))
  have "links h' (P @ [a])" "links h' (b # S)"
    using l(1) l(6) links_outside [OF assms(2,3) n p] by blast+
  then have "links h' (P @ a # b # S)"
    using \<open>a \<noteq> x\<close> \<open>b \<noteq> x\<close> by (intro links_split [THEN iffD2]) (simp add: h'(2,3))
  with h' that show thesis by blast
qed

subsection \<open>Lists with a head\<close>

text \<open>The ring of the head \<open>hd0\<close> and the nodes \<open>xs\<close>, in the order of \<open>next\<close>.\<close>

definition ring :: "nat \<Rightarrow> heap \<Rightarrow> nat list \<Rightarrow> bool" where
  "ring hd0 h xs \<longleftrightarrow> distinct (hd0 # xs) \<and> hd0 \<in> dom h \<and> links h (hd0 # xs @ [hd0])"

lemma ring_head: "ring hd0 h xs \<Longrightarrow> nxt h hd0 = Some (hd (xs @ [hd0])) \<and> prv h hd0 = Some (last (hd0 # xs))"
proof -
  assume r: "ring hd0 h xs"
  have n: "nxt h hd0 = Some (hd (xs @ [hd0]))" using r by (cases xs) (auto simp: ring_def)
  define P a where "P = butlast (hd0 # xs)" and "a = last (hd0 # xs)"
  then have "hd0 # xs = P @ [a]" by (metis append_butlast_last_id list.distinct(1))
  then have "hd0 # xs @ [hd0] = P @ a # [hd0]" by (metis append_Cons append_assoc append_Nil)
  with r have "links h (P @ a # [hd0])" by (simp add: ring_def)
  from this [THEN links_split [THEN iffD1]] have "prv h hd0 = Some (last (hd0 # xs))" by (simp add: a_def)
  with n show ?thesis by simp
qed

lemma ring_init:
  assumes "p \<in> dom h"
  obtains h' where "INIT_LIST_HEAD p h = Inr h'" "ring p h' []" "dom h' = dom h"
proof -
  obtain h1 where 1: "set_next p p h = Inr h1" "nxt h1 = (nxt h)(p \<mapsto> p)" "dom h1 = dom h"
    using set_next_ok assms by metis
  obtain h2 where 2: "set_prev p p h1 = Inr h2" "prv h2 = (prv h1)(p \<mapsto> p)" "nxt h2 = nxt h1" "dom h2 = dom h1"
    using set_prev_ok assms 1(3) by metis
  show thesis
    by (rule that [of h2]) (use assms in \<open>simp_all add: INIT_LIST_HEAD_def ring_def 1 2\<close>)
qed

lemma ring_add:
  assumes "ring hd0 h xs" and "x \<notin> set (hd0 # xs)" and "x \<in> dom h"
  obtains h' where "list_add hd0 x h = Inr h'" "ring hd0 h' (x # xs)" "dom h' = dom h"
proof -
  obtain b S where bS: "xs @ [hd0] = b # S" by (cases "xs @ [hd0]") auto
  have e: "[] @ hd0 # b # S = hd0 # xs @ [hd0]" by (simp add: bS)
  have "links h ([] @ hd0 # b # S)" "once ([] @ hd0 # b # S)" "x \<notin> set ([] @ hd0 # b # S)"
    unfolding e once_def using assms(1,2) by (auto simp: ring_def butlast_append)
  then obtain h' where h': "list_add_between hd0 b x h = Inr h'" "links h' ([] @ hd0 # x # b # S)" "dom h' = dom h"
    using links_insert assms(3) by blast
  have "get_next hd0 h = Inr b"
    using ring_head [OF assms(1)] by (simp add: get_next_Inr bS)
  moreover have "ring hd0 h' (x # xs)"
    using h' assms by (auto simp: ring_def bS)
  ultimately show thesis by (intro that [of h']) (simp_all add: list_add_def h')
qed

lemma ring_add_tail:
  assumes "ring hd0 h xs" and "x \<notin> set (hd0 # xs)" and "x \<in> dom h"
  obtains h' where "list_add_tail hd0 x h = Inr h'" "ring hd0 h' (xs @ [x])" "dom h' = dom h"
proof -
  define P a where "P = butlast (hd0 # xs)" and "a = last (hd0 # xs)"
  then have Pa: "hd0 # xs = P @ [a]" by (metis append_butlast_last_id list.distinct(1))
  have tl: "xs = tl (P @ [a])" by (metis Pa list.sel(3))
  have e: "hd0 # xs @ [hd0] = P @ a # [hd0]" using Pa by (metis append_Cons append_assoc append_Nil)
  have "once (P @ a # [hd0])"
    unfolding e [symmetric] once_def using assms(1) by (auto simp: ring_def butlast_append)
  moreover have "x \<notin> set (P @ a # [hd0])"
    unfolding e [symmetric] using assms(2) by simp
  ultimately obtain h' where h': "list_add_between a hd0 x h = Inr h'" "links h' (P @ a # x # [hd0])" "dom h' = dom h"
    using links_insert [of h P a hd0 "[]" x] assms(1,3) by (auto simp: ring_def e)
  have "get_prev hd0 h = Inr a"
    using ring_head [OF assms(1)] by (simp add: get_prev_Inr a_def)
  moreover have "hd0 # (xs @ [x]) @ [hd0] = P @ a # x # [hd0]" using Pa by (metis append_Cons append_assoc append_Nil)
  with h'(2) have "links h' (hd0 # (xs @ [x]) @ [hd0])" by (simp only:)
  with h'(3) assms have "ring hd0 h' (xs @ [x])" by (auto simp: ring_def)
  ultimately show thesis by (intro that [of h']) (simp_all add: list_add_tail_def h')
qed

lemma ring_del:
  assumes "ring hd0 h (ys @ x # zs)"
  obtains h' where "list_del x h = Inr h'" "ring hd0 h' (ys @ zs)" "dom h' = dom h"
proof -
  define P a where "P = butlast (hd0 # ys)" and "a = last (hd0 # ys)"
  then have Pa: "hd0 # ys = P @ [a]" by (metis append_butlast_last_id list.distinct(1))
  obtain b S where bS: "zs @ [hd0] = b # S" by (cases "zs @ [hd0]") auto
  have e: "hd0 # (ys @ zs) @ [hd0] = P @ a # b # S" "hd0 # (ys @ x # zs) @ [hd0] = P @ a # x # b # S"
    using Pa bS by (metis append_Cons append_assoc append_Nil)+
  have "once (P @ a # b # S)" "x \<notin> set (P @ a # b # S)" "links h (P @ a # x # b # S)"
    unfolding e [symmetric] once_def using assms by (auto simp: ring_def butlast_append)
  then obtain h' where h': "list_del x h = Inr h'" "links h' (P @ a # b # S)" "dom h' = dom h"
    using links_delete by blast
  then have "links h' (hd0 # (ys @ zs) @ [hd0])" by (simp only: e)
  then have "ring hd0 h' (ys @ zs)"
    using h'(3) assms by (auto simp: ring_def)
  with h' that show thesis by blast
qed

subsection \<open>The abstract deque\<close>

datatype list_op = AddHead nat | AddTail nat | Remove nat | PopHead | PopTail | TestEmpty

datatype list_answer = Done | Node nat | Answer bool

text \<open>
  The specification, on the sequence of the nodes: \<open>None\<close> is a call the client must not make
  (a node that is not its own, that is already in the list, or that is not in it; a pop of the
  empty list).  \<open>own\<close> tells the nodes of the client.
\<close>

fun deque_step :: "(nat \<Rightarrow> bool) \<Rightarrow> list_op \<Rightarrow> nat list \<Rightarrow> (list_answer \<times> nat list) option" where
  "deque_step own (AddHead x) xs = (if own x \<and> x \<notin> set xs then Some (Done, x # xs) else None)"
| "deque_step own (AddTail x) xs = (if own x \<and> x \<notin> set xs then Some (Done, xs @ [x]) else None)"
| "deque_step own (Remove x) xs = (if x \<in> set xs then Some (Done, remove1 x xs) else None)"
| "deque_step own PopHead xs = (case xs of [] \<Rightarrow> None | x # ys \<Rightarrow> Some (Node x, ys))"
| "deque_step own PopTail xs = (if xs = [] then None else Some (Node (last xs), butlast xs))"
| "deque_step own TestEmpty xs = Some (Answer (xs = []), xs)"

fun deque_run :: "(nat \<Rightarrow> bool) \<Rightarrow> list_op list \<Rightarrow> nat list \<Rightarrow> (list_answer list \<times> nat list) option" where
  "deque_run own [] xs = Some ([], xs)"
| "deque_run own (op # ops) xs = (case deque_step own op xs of None \<Rightarrow> None
   | Some (a, ys) \<Rightarrow> map_option (\<lambda>(as, zs). (a # as, zs)) (deque_run own ops ys))"

text \<open>The calls of the code, and a sequence of calls.\<close>

fun list_step :: "nat \<Rightarrow> list_op \<Rightarrow> heap \<Rightarrow> (list_answer \<times> heap) outcome" where
  "list_step head (AddHead x) h = map_sum id (Pair Done) (list_add head x h)"
| "list_step head (AddTail x) h = map_sum id (Pair Done) (list_add_tail head x h)"
| "list_step head (Remove x) h = map_sum id (Pair Done) (list_del x h)"
| "list_step head PopHead h = map_sum id (\<lambda>(x, h). (Node x, h)) (list_pop head h)"
| "list_step head PopTail h = map_sum id (\<lambda>(x, h). (Node x, h)) (list_pop_tail head h)"
| "list_step head TestEmpty h = map_sum id (\<lambda>b. (Answer b, h)) (list_empty head h)"

fun run_calls :: "('op \<Rightarrow> 'h \<Rightarrow> ('a \<times> 'h) outcome) \<Rightarrow> 'op list \<Rightarrow> 'h \<Rightarrow> ('a list \<times> 'h) outcome" where
  "run_calls step [] h = Inr ([], h)"
| "run_calls step (op # ops) h =
     chain (step op h) (\<lambda>(a, h). map_sum id (\<lambda>(as, h). (a # as, h)) (run_calls step ops h))"

text \<open>An implementation of the deque: \<open>repr\<close> relates its states to sequences.\<close>

locale deque_implementation =
  fixes step :: "list_op \<Rightarrow> 'h \<Rightarrow> (list_answer \<times> 'h) outcome"
    and repr :: "'h \<Rightarrow> nat list \<Rightarrow> bool" and own :: "'h \<Rightarrow> nat \<Rightarrow> bool"
  assumes simulates: "\<lbrakk>repr h xs; deque_step (own h) op xs = Some (a, ys)\<rbrakk> \<Longrightarrow>
    \<exists>h'. step op h = Inr (a, h') \<and> repr h' ys \<and> own h' = own h"
begin

lemma run_simulates:
  "\<lbrakk>repr h xs; deque_run (own h) ops xs = Some (as, ys)\<rbrakk> \<Longrightarrow>
    \<exists>h'. run_calls step ops h = Inr (as, h') \<and> repr h' ys \<and> own h' = own h"
proof (induction ops arbitrary: h xs as)
  case (Cons op ops)
  from Cons.prems(2) obtain a zs as' where 1: "deque_step (own h) op xs = Some (a, zs)"
    and 2: "deque_run (own h) ops zs = Some (as', ys)" and as: "as = a # as'"
    by (auto split: option.splits)
  obtain h1 where 3: "step op h = Inr (a, h1)" "repr h1 zs" "own h1 = own h"
    using simulates [OF Cons.prems(1) 1] by blast
  from Cons.IH [OF 3(2)] 2 3(3) obtain h' where "run_calls step ops h1 = Inr (as', h')" "repr h' ys" "own h' = own h"
    by auto
  with 3 show ?case by (simp add: as)
qed simp

end

definition own_node :: "nat \<Rightarrow> heap \<Rightarrow> nat \<Rightarrow> bool" where
  "own_node hd0 h x \<longleftrightarrow> x \<noteq> hd0 \<and> x \<in> dom h"

lemma ring_pop:
  assumes "ring hd0 h (x # xs)"
  obtains h' where "list_pop hd0 h = Inr (x, h')" "ring hd0 h' xs" "dom h' = dom h"
proof -
  obtain h' where h': "list_del x h = Inr h'" "ring hd0 h' xs" "dom h' = dom h"
    using ring_del [of hd0 h "[]" x xs] assms by auto
  have "get_next hd0 h = Inr x" using ring_head [OF assms] by (simp add: get_next_Inr)
  then show thesis by (intro that [of h']) (simp_all add: list_pop_def h')
qed

lemma ring_pop_tail:
  assumes "ring hd0 h (xs @ [x])"
  obtains h' where "list_pop_tail hd0 h = Inr (x, h')" "ring hd0 h' xs" "dom h' = dom h"
proof -
  obtain h' where h': "list_del x h = Inr h'" "ring hd0 h' xs" "dom h' = dom h"
    using ring_del [of hd0 h xs x "[]"] assms by auto
  have "get_prev hd0 h = Inr x" using ring_head [OF assms] by (simp add: get_prev_Inr)
  then show thesis by (intro that [of h']) (simp_all add: list_pop_tail_def h')
qed

lemma ring_empty: "ring hd0 h xs \<Longrightarrow> list_empty hd0 h = Inr (xs = [])"
proof -
  assume r: "ring hd0 h xs"
  then have "get_next hd0 h = Inr (hd (xs @ [hd0]))" by (simp add: ring_head get_next_Inr)
  with r show ?thesis by (cases xs) (auto simp: list_empty_def ring_def)
qed

interpretation tee_list: deque_implementation "list_step hd0" "ring hd0" "own_node hd0" for hd0
proof
  fix h xs op a ys
  assume r: "ring hd0 h xs" and d: "deque_step (own_node hd0 h) op xs = Some (a, ys)"
  have fin: "\<exists>h'. list_step hd0 op h = Inr (a, h') \<and> ring hd0 h' ys \<and> own_node hd0 h' = own_node hd0 h"
    if "list_step hd0 op h = Inr (a, h1)" "ring hd0 h1 ys" "dom h1 = dom h" for h1
    using that by (intro exI [of _ h1]) (simp add: own_node_def fun_eq_iff)
  show "\<exists>h'. list_step hd0 op h = Inr (a, h') \<and> ring hd0 h' ys \<and> own_node hd0 h' = own_node hd0 h"
  proof (cases op)
    case (AddHead x)
    with d have x: "x \<notin> set (hd0 # xs)" "x \<in> dom h" "a = Done" "ys = x # xs"
      by (auto simp: own_node_def split: if_splits)
    obtain h' where "list_add hd0 x h = Inr h'" "ring hd0 h' (x # xs)" "dom h' = dom h"
      by (rule ring_add [OF r x(1,2)])
    with AddHead x(3,4) show ?thesis by (intro fin [of h']) simp_all
  next
    case (AddTail x)
    with d have x: "x \<notin> set (hd0 # xs)" "x \<in> dom h" "a = Done" "ys = xs @ [x]"
      by (auto simp: own_node_def split: if_splits)
    obtain h' where "list_add_tail hd0 x h = Inr h'" "ring hd0 h' (xs @ [x])" "dom h' = dom h"
      by (rule ring_add_tail [OF r x(1,2)])
    with AddTail x(3,4) show ?thesis by (intro fin [of h']) simp_all
  next
    case (Remove x)
    with d obtain us vs where xs: "xs = us @ x # vs" "x \<notin> set us" by (auto dest: split_list_first split: if_splits)
    with r obtain h' where "list_del x h = Inr h'" "ring hd0 h' (us @ vs)" "dom h' = dom h"
      using ring_del by blast
    with Remove d xs show ?thesis by (intro fin [of h']) (simp_all add: remove1_append)
  next
    case PopHead
    with d obtain x where xs: "xs = x # ys" "a = Node x" by (auto split: list.splits)
    with r obtain h' where "list_pop hd0 h = Inr (x, h')" "ring hd0 h' ys" "dom h' = dom h"
      using ring_pop by blast
    with PopHead xs show ?thesis by (intro fin [of h']) simp_all
  next
    case PopTail
    with d have ys: "xs = ys @ [last xs]" "a = Node (last xs)" by (auto split: if_splits)
    with r obtain h' where "list_pop_tail hd0 h = Inr (last xs, h')" "ring hd0 h' ys" "dom h' = dom h"
      using ring_pop_tail by metis
    with PopTail ys show ?thesis by (intro fin [of h']) simp_all
  next
    case TestEmpty
    with d r show ?thesis by (auto simp: ring_empty)
  qed
qed

text \<open>C12.  The linked list is a deque: from a list that represents a sequence of nodes, any
  calls the client may make return without a fault, give the answers of the specification, and
  end with a list that represents the sequence the specification ends with.\<close>

theorem list_refines_deque:
  assumes "ring hd0 h xs" and "deque_run (own_node hd0 h) ops xs = Some (as, ys)"
  shows "\<exists>h'. run_calls (list_step hd0) ops h = Inr (as, h') \<and> ring hd0 h' ys"
  using tee_list.run_simulates [OF assms] by blast

text \<open>Addresses 1 to 3, the list at 1.\<close>

definition three_nodes :: heap where
  "three_nodes = [1 \<mapsto> \<lparr>lnext = 1, lprev = 1\<rparr>, 2 \<mapsto> \<lparr>lnext = 0, lprev = 0\<rparr>, 3 \<mapsto> \<lparr>lnext = 0, lprev = 0\<rparr>]"

lemma three_nodes_ring: "ring 1 three_nodes []"
  by (simp add: ring_def nxt_def prv_def three_nodes_def)

lemma list_refines_deque_witness:
  "\<exists>h'. run_calls (list_step 1) [AddHead 2, AddTail 3, PopHead, TestEmpty] three_nodes =
      Inr ([Done, Done, Node 2, Answer False], h') \<and> ring 1 h' [3]"
  by (rule list_refines_deque [OF three_nodes_ring]) (simp add: own_node_def three_nodes_def)

subsection \<open>Iteration\<close>

lemma walk_links:
  "\<lbrakk>links h (xs @ [hd0]); hd0 \<notin> set xs; c = hd (xs @ [hd0])\<rbrakk> \<Longrightarrow> list_walk hd0 c h = Some (Inr xs)"
proof (induction xs arbitrary: c)
  case Nil
  then show ?case by (simp add: list_walk.simps)
next
  case (Cons x xs)
  have "nxt h x = Some (hd (xs @ [hd0]))" "links h (xs @ [hd0])"
    using Cons.prems(1) by (cases xs; simp)+
  with Cons show ?case
    by (subst list_walk.simps) (simp add: get_next_Inr [THEN iffD2])
qed

text \<open>The iteration ends: over a list that represents a sequence, \<open>list_for_each\<close> visits
  exactly the nodes of the sequence, in order and once each, and stops.\<close>

lemma for_each_visits:
  assumes "ring hd0 h xs"
  shows "list_for_each hd0 h = Some (Inr xs)"
proof -
  have "links h (xs @ [hd0])" "hd0 \<notin> set xs"
    using assms by (cases xs; simp add: ring_def)+
  then have "list_walk hd0 (hd (xs @ [hd0])) h = Some (Inr xs)" by (rule walk_links) simp
  with ring_head [OF assms] show ?thesis by (simp add: list_for_each_def get_next_Inr [THEN iffD2])
qed

lemma for_each_visits_witness: "list_for_each 1 three_nodes = Some (Inr [])"
  by (rule for_each_visits [OF three_nodes_ring])

text \<open>Popping the empty list is not refused, it destroys the list: the call returns the
  head as if it were a node and poisons it, so the list is no longer empty for \<open>list_empty\<close> and the
  next iteration follows a wild pointer.\<close>

lemma empty_pop_poisons:
  assumes "ring hd0 h []" and "LIST_POISON_NEXT \<notin> dom h"
  shows "\<exists>h'. list_pop hd0 h = Inr (hd0, h') \<and> list_empty hd0 h' = Inr False \<and>
    list_for_each hd0 h' = Some (Inl WildPointer)"
proof -
  have hd0: "nxt h hd0 = Some hd0" "prv h hd0 = Some hd0" "hd0 \<in> dom h"
    using assms(1) by (simp_all add: ring_def)
  obtain h' where h': "list_del hd0 h = Inr h'" "nxt h' hd0 = Some LIST_POISON_NEXT" "dom h' = dom h"
    using del_ok [OF hd0(1,2,3,3)] by (metis fun_upd_same)
  have "get_next LIST_POISON_NEXT h' = Inl WildPointer"
    using assms(2) h'(3) by (auto simp: get_next_def split: option.split)
  moreover have "LIST_POISON_NEXT \<noteq> hd0" using assms(2) hd0(3) by auto
  ultimately show ?thesis
    using hd0(1) h'(1,2)
    by (simp add: list_pop_def list_empty_def list_for_each_def list_walk.simps get_next_Inr [THEN iffD2])
qed

lemma empty_pop_poisons_witness:
  "\<exists>h'. list_pop 1 three_nodes = Inr (1, h') \<and> list_for_each 1 h' = Some (Inl WildPointer)"
  using empty_pop_poisons [OF three_nodes_ring] by (auto simp: three_nodes_def LIST_POISON_NEXT_def)

end
