(* ===== verification/TeeEntries.thy ===== *)
theory TeeEntries
  imports TeeList
begin

text \<open>
  The macros of \<open>tee_client_api.h\<close> over the entries of a list: structures with a \<open>struct list\<close> at
  the offset \<open>off\<close> (as \<open>UT_TEEC_Session\<close> has \<open>head\<close> and \<open>UT_TEEC_SharedMemory\<close> has \<open>head_ref\<close>).
  A pointer to an entry is an integer, because the macros also compute the address of the
  structure that would surround the head, which is not inside of one.
\<close>

subsection \<open>The macros\<close>

definition list_entry :: "nat \<Rightarrow> nat \<Rightarrow> int" where
  "list_entry off ptr = int ptr - int off"

text \<open>\<open>&ptr->member\<close>.\<close>

definition member_of :: "nat \<Rightarrow> int \<Rightarrow> nat" where
  "member_of off e = nat (e + int off)"

lemma member_list_entry [simp]: "member_of off (list_entry off p) = p"
  by (simp add: member_of_def list_entry_def)

text \<open>
  The body of a loop gets the entry and works on the memory, together with whatever else it
  keeps; a fault in it ends the loop.  A loop that does not end is \<open>None\<close>.
\<close>

partial_function (option) entry_walk :: "nat \<Rightarrow> nat \<Rightarrow> (int \<Rightarrow> heap \<times> 'a \<Rightarrow> (heap \<times> 'a) outcome) \<Rightarrow>
    int \<Rightarrow> heap \<times> 'a \<Rightarrow> (heap \<times> 'a) outcome option" where
  "entry_walk off head body ptr s =
     (if member_of off ptr = head then Some (Inr s)
      else case body ptr s of Inl f \<Rightarrow> Some (Inl f)
      | Inr s \<Rightarrow> (case get_next (member_of off ptr) (fst s) of Inl f \<Rightarrow> Some (Inl f)
          | Inr n \<Rightarrow> entry_walk off head body (list_entry off n) s))"

definition list_for_each_entry :: "nat \<Rightarrow> nat \<Rightarrow> (int \<Rightarrow> heap \<times> 'a \<Rightarrow> (heap \<times> 'a) outcome) \<Rightarrow>
    heap \<times> 'a \<Rightarrow> (heap \<times> 'a) outcome option" where
  "list_for_each_entry off head body s =
     (case get_next head (fst s) of Inl f \<Rightarrow> Some (Inl f)
      | Inr n \<Rightarrow> entry_walk off head body (list_entry off n) s)"

text \<open>The safe version reads the successor before it runs the body.\<close>

partial_function (option) entry_walk_safe :: "nat \<Rightarrow> nat \<Rightarrow> (int \<Rightarrow> heap \<times> 'a \<Rightarrow> (heap \<times> 'a) outcome) \<Rightarrow>
    int \<Rightarrow> int \<Rightarrow> heap \<times> 'a \<Rightarrow> (heap \<times> 'a) outcome option" where
  "entry_walk_safe off head body pos n s =
     (if member_of off pos = head then Some (Inr s)
      else case body pos s of Inl f \<Rightarrow> Some (Inl f)
      | Inr s \<Rightarrow> (case get_next (member_of off n) (fst s) of Inl f \<Rightarrow> Some (Inl f)
          | Inr m \<Rightarrow> entry_walk_safe off head body n (list_entry off m) s))"

definition list_for_each_entry_safe :: "nat \<Rightarrow> nat \<Rightarrow> (int \<Rightarrow> heap \<times> 'a \<Rightarrow> (heap \<times> 'a) outcome) \<Rightarrow>
    heap \<times> 'a \<Rightarrow> (heap \<times> 'a) outcome option" where
  "list_for_each_entry_safe off head body s =
     (case get_next head (fst s) of Inl f \<Rightarrow> Some (Inl f)
      | Inr p \<Rightarrow> (case get_next (member_of off (list_entry off p)) (fst s) of Inl f \<Rightarrow> Some (Inl f)
          | Inr m \<Rightarrow> entry_walk_safe off head body (list_entry off p) (list_entry off m) s))"

text \<open>The body of a clean-up: it records the entry it is given, and takes those that satisfy \<open>P\<close>
  out of their list.\<close>

definition sweep :: "nat \<Rightarrow> (int \<Rightarrow> bool) \<Rightarrow> int \<Rightarrow> heap \<times> int list \<Rightarrow> (heap \<times> int list) outcome" where
  "sweep off P e s = (case s of (h, log) \<Rightarrow>
     if P e then map_sum id (\<lambda>h. (h, log @ [e])) (list_del (member_of off e) h) else Inr (h, log @ [e]))"

lemma sweep_simps [simp]:
  "sweep off P e (h, log) =
     (if P e then map_sum id (\<lambda>h. (h, log @ [e])) (list_del (member_of off e) h) else Inr (h, log @ [e]))"
  by (simp add: sweep_def)

subsection \<open>Iteration over a ring\<close>

lemma ring_next: "ring hd0 h (us @ w # ws) \<Longrightarrow> get_next w h = Inr (hd (ws @ [hd0]))"
proof -
  assume r: "ring hd0 h (us @ w # ws)"
  then have "links h ((hd0 # us) @ w # (ws @ [hd0]))" by (simp add: ring_def)
  from this [THEN links_split [THEN iffD1]] have "links h (w # ws @ [hd0])" by simp
  then show ?thesis by (cases ws) (simp_all add: get_next_Inr)
qed

lemma ring_first: "ring hd0 h xs \<Longrightarrow> get_next hd0 h = Inr (hd (xs @ [hd0]))"
  by (simp add: ring_head get_next_Inr)

lemma ring_second:
  assumes "ring hd0 h (us @ ws)"
  shows "\<exists>m. get_next (hd (ws @ [hd0])) h = Inr m \<and> (ws \<noteq> [] \<longrightarrow> m = hd (tl ws @ [hd0]))"
proof (cases ws)
  case Nil
  with ring_first [OF assms] show ?thesis by simp
next
  case (Cons v vs)
  with assms have "get_next v h = Inr (hd (vs @ [hd0]))" by (intro ring_next) simp
  with Cons show ?thesis by simp
qed

lemma ring_apart: "ring hd0 h (us @ w # ws) \<Longrightarrow> w \<noteq> hd0"
  by (auto simp: ring_def)

lemma sweep_ring:
  assumes "ring hd0 h (us @ w # ws)"
  obtains h' where "sweep off P (list_entry off w) (h, log) = Inr (h', log @ [list_entry off w])"
    "ring hd0 h' (us @ (if P (list_entry off w) then ws else w # ws))"
proof (cases "P (list_entry off w)")
  case True
  obtain h' where "list_del w h = Inr h'" "ring hd0 h' (us @ ws)" by (rule ring_del [OF assms])
  with True show thesis by (intro that [of h']) (simp_all)
next
  case False
  with assms show thesis by (intro that [of h]) (simp_all)
qed

lemma safe_walk:
  "\<lbrakk>ring hd0 h (us @ ws); p = hd (ws @ [hd0]); ws \<noteq> [] \<Longrightarrow> n = list_entry off (hd (tl ws @ [hd0]))\<rbrakk> \<Longrightarrow>
    \<exists>h'. entry_walk_safe off hd0 (sweep off P) (list_entry off p) n (h, log) =
        Some (Inr (h', log @ map (list_entry off) ws)) \<and>
      ring hd0 h' (us @ filter (\<lambda>w. \<not> P (list_entry off w)) ws)"
proof (induction ws arbitrary: h us p n log)
  case Nil
  then show ?case by (subst entry_walk_safe.simps) simp
next
  case (Cons w ws)
  let ?e = "list_entry off w" and ?us = "us @ (if P (list_entry off w) then [] else [w])"
  obtain h1 where h1: "sweep off P ?e (h, log) = Inr (h1, log @ [?e])"
      "ring hd0 h1 (us @ (if P ?e then ws else w # ws))"
    using sweep_ring [OF Cons.prems(1)] by blast
  then have r: "ring hd0 h1 (?us @ ws)" by (auto split: if_splits)
  obtain m where m: "get_next (hd (ws @ [hd0])) h1 = Inr m" "ws \<noteq> [] \<longrightarrow> m = hd (tl ws @ [hd0])"
    using ring_second [OF r] by blast
  obtain h2 where h2: "entry_walk_safe off hd0 (sweep off P) (list_entry off (hd (ws @ [hd0])))
        (list_entry off m) (h1, log @ [?e]) = Some (Inr (h2, (log @ [?e]) @ map (list_entry off) ws))"
      "ring hd0 h2 (?us @ filter (\<lambda>w. \<not> P (list_entry off w)) ws)"
    using Cons.IH [OF r refl, of "list_entry off m" "log @ [?e]"] m(2) by blast
  show ?case
    using ring_apart [OF Cons.prems(1)] Cons.prems(2,3) h1(1) m(1) h2
    by (intro exI [of _ h2], subst entry_walk_safe.simps) (auto split: if_splits)
qed

text \<open>C13.  The safe iteration may take entries out of the list while it runs: it ends, visits every
  entry in order and once each, and leaves the list of exactly the entries the clean-up keeps.\<close>

theorem safe_sweep:
  assumes "ring hd0 h xs"
  shows "\<exists>h'. list_for_each_entry_safe off hd0 (sweep off P) (h, []) =
      Some (Inr (h', map (list_entry off) xs)) \<and> ring hd0 h' (filter (\<lambda>x. \<not> P (list_entry off x)) xs)"
proof -
  obtain m where m: "get_next (hd (xs @ [hd0])) h = Inr m" "xs \<noteq> [] \<longrightarrow> m = hd (tl xs @ [hd0])"
    using ring_second [of hd0 h "[]" xs] assms by auto
  have "\<exists>h'. entry_walk_safe off hd0 (sweep off P) (list_entry off (hd (xs @ [hd0]))) (list_entry off m) (h, []) =
        Some (Inr (h', [] @ map (list_entry off) xs)) \<and> ring hd0 h' ([] @ filter (\<lambda>x. \<not> P (list_entry off x)) xs)"
    using assms m(2) by (intro safe_walk) simp_all
  with m(1) ring_first [OF assms] show ?thesis by (simp add: list_for_each_entry_safe_def)
qed

text \<open>The list at 1 with the entries at 6 and 7, whose links are 4 bytes into them.\<close>

definition two_entries :: heap where
  "two_entries = [1 \<mapsto> \<lparr>lnext = 10, lprev = 11\<rparr>, 10 \<mapsto> \<lparr>lnext = 11, lprev = 1\<rparr>, 11 \<mapsto> \<lparr>lnext = 1, lprev = 10\<rparr>]"

lemma two_entries_ring: "ring 1 two_entries [10, 11]"
  by (auto simp: ring_def nxt_def prv_def two_entries_def)

lemma safe_sweep_witness:
  "\<exists>h'. list_for_each_entry_safe 4 1 (sweep 4 (\<lambda>e. e = 6)) (two_entries, []) = Some (Inr (h', [6, 7])) \<and> ring 1 h' [11]"
  using safe_sweep [OF two_entries_ring, of 4 "\<lambda>e. e = 6"] by (simp add: list_entry_def)

subsection \<open>The iteration that is not safe\<close>

lemma plain_walk:
  "\<lbrakk>ring hd0 h (us @ ws); p = hd (ws @ [hd0]); \<forall>w\<in>set ws. \<not> P (list_entry off w)\<rbrakk> \<Longrightarrow>
    entry_walk off hd0 (sweep off P) (list_entry off p) (h, log) = Some (Inr (h, log @ map (list_entry off) ws))"
proof (induction ws arbitrary: us p log)
  case Nil
  then show ?case by (subst entry_walk.simps) simp
next
  case (Cons w ws)
  then show ?case
    using ring_next [OF Cons.prems(1)] ring_apart [OF Cons.prems(1)] Cons.IH [of "us @ [w]"]
    by (subst entry_walk.simps) simp
qed

lemma wild_del: "p \<notin> dom h \<Longrightarrow> list_del p h = Inl WildPointer"
  by (auto simp: list_del_def get_prev_def domIff)

lemma del_poisons: "list_del p h = Inr h' \<Longrightarrow> nxt h' p = Some LIST_POISON_NEXT"
  by (auto simp: list_del_def list_del_between_def chain_def get_next_def get_prev_def set_next_def
      set_prev_def nxt_def split: sum.splits option.splits if_splits)

text \<open>Over a wild pointer the clean-up or the step behind it faults.\<close>

lemma wild_walk:
  assumes "p \<notin> dom h" and "p \<noteq> hd0"
  shows "entry_walk off hd0 (sweep off P) (list_entry off p) (h, log) = Some (Inl WildPointer)"
  using assms wild_del [OF assms(1)]
  by (subst entry_walk.simps) (auto simp: get_next_def domIff split: sum.splits)

lemma plain_walk_wild:
  "\<lbrakk>ring hd0 h (us @ ws); p = hd (ws @ [hd0]); \<exists>w\<in>set ws. P (list_entry off w); LIST_POISON_NEXT \<notin> dom h\<rbrakk> \<Longrightarrow>
    entry_walk off hd0 (sweep off P) (list_entry off p) (h, log) = Some (Inl WildPointer)"
proof (induction ws arbitrary: us p log)
  case (Cons w ws)
  note step = ring_next [OF Cons.prems(1)] ring_apart [OF Cons.prems(1)]
  show ?case
  proof (cases "P (list_entry off w)")
    case False
    then show ?thesis
      using Cons.prems step Cons.IH [of "us @ [w]"]
      by (subst entry_walk.simps) simp
  next
    case True
    obtain h' where h': "list_del w h = Inr h'" "dom h' = dom h" by (rule ring_del [OF Cons.prems(1)])
    then have n: "nxt h' w = Some LIST_POISON_NEXT" by (intro del_poisons)
    have "hd0 \<in> dom h" using Cons.prems(1) by (simp add: ring_def)
    then have "LIST_POISON_NEXT \<noteq> hd0" using Cons.prems(4) by blast
    with h' Cons.prems(4) have "entry_walk off hd0 (sweep off P) (list_entry off LIST_POISON_NEXT) (h', log @ [list_entry off w]) =
        Some (Inl WildPointer)" by (intro wild_walk) simp_all
    with True h' n step(2) Cons.prems(2) show ?thesis
      by (subst entry_walk.simps) (simp add: get_next_Inr [THEN iffD2])
  qed
qed simp

text \<open>The plain iteration over the entries is not safe: it visits the whole list when the body
  takes nothing out of it, but after the first entry that the body takes out it follows the poison
  and faults.\<close>

lemma plain_sweep:
  assumes "ring hd0 h xs" and "LIST_POISON_NEXT \<notin> dom h"
  shows "list_for_each_entry off hd0 (sweep off P) (h, []) =
    Some (if \<exists>x\<in>set xs. P (list_entry off x) then Inl WildPointer else Inr (h, map (list_entry off) xs))"
proof -
  have r: "ring hd0 h ([] @ xs)" using assms(1) by simp
  have "entry_walk off hd0 (sweep off P) (list_entry off (hd (xs @ [hd0]))) (h, []) =
      Some (if \<exists>x\<in>set xs. P (list_entry off x) then Inl WildPointer else Inr (h, map (list_entry off) xs))"
    using plain_walk_wild [OF r refl _ assms(2)] plain_walk [OF r refl, of P off "[]"] by simp
  then show ?thesis using ring_first [OF assms(1)] by (simp add: list_for_each_entry_def)
qed

lemma plain_sweep_witness:
  "list_for_each_entry 4 1 (sweep 4 (\<lambda>e. e = 6)) (two_entries, []) = Some (Inl WildPointer)"
  using plain_sweep [OF two_entries_ring, of 4 "\<lambda>e. e = 6"]
  by (simp add: list_entry_def two_entries_def LIST_POISON_NEXT_def)

end
