(* ===== verification/TeeRequests.thy ===== *)
theory TeeRequests
  imports Device TeeClient
begin

text \<open>
  The driver of the TEE, \<open>libese_spi_client/include/teei_client.h\<close>: the structures the requests of
  \<open>/dev/teei_client\<close> carry, with their sizes under the C layout rules, and the request numbers.
  The library that makes these requests is only present as a binary.
\<close>

subsection \<open>Structures\<close>

text \<open>A member by its size and alignment; \<open>w\<close> is the size of a pointer.\<close>

type_synonym member_layout = "nat \<times> nat"

definition c_int :: member_layout where "c_int = (4, 4)"
definition c_char :: member_layout where "c_char = (1, 1)"
definition c_pointer :: "nat \<Rightarrow> member_layout" where "c_pointer w = (w, w)"
definition c_array :: "nat \<Rightarrow> member_layout \<Rightarrow> member_layout" where "c_array n m = (n * fst m, snd m)"

definition round_up :: "nat \<Rightarrow> nat \<Rightarrow> nat" where
  "round_up al n = (n + (al - 1)) div al * al"

fun struct_end :: "nat \<Rightarrow> (string \<times> member_layout) list \<Rightarrow> nat" where
  "struct_end off [] = off"
| "struct_end off ((_, sz, al) # fs) = struct_end (round_up al off + sz) fs"

definition struct_align :: "(string \<times> member_layout) list \<Rightarrow> nat" where
  "struct_align fs = foldr (\<lambda>(_, _, al). max al) fs 1"

definition struct_size :: "(string \<times> member_layout) list \<Rightarrow> nat" where
  "struct_size fs = round_up (struct_align fs) (struct_end 0 fs)"

text \<open>\<open>TEEC_UUID\<close>: a word, two half words and eight bytes.\<close>

definition c_uuid :: member_layout where "c_uuid = (16, 4)"

definition client_encode_cmd :: "nat \<Rightarrow> (string \<times> member_layout) list" where
  "client_encode_cmd w =
     [(''len'', c_int), (''data'', c_pointer w), (''offset'', c_int), (''flags'', c_int), (''param_type'', c_int),
      (''encode_id'', c_int), (''session_id'', c_int), (''cmd_id'', c_int), (''value_flag'', c_int),
      (''param_pos'', c_int), (''param_pos_type'', c_int), (''return_value'', c_int), (''return_origin'', c_int)]"

definition ser_ses_id :: "(string \<times> member_layout) list" where
  "ser_ses_id = [(''session_id'', c_int), (''uuid'', c_uuid), (''return_value'', c_int), (''return_origin'', c_int),
     (''paramtype'', c_int), (''params'', c_array 8 c_int)]"

definition user_ses_init :: "(string \<times> member_layout) list" where
  "user_ses_init = [(''session_id'', c_int)]"

definition ctx_data :: "(string \<times> member_layout) list" where
  "ctx_data = [(''name'', c_array 255 c_char), (''return_value'', c_int)]"

definition session_shared_mem_info :: "nat \<Rightarrow> (string \<times> member_layout) list" where
  "session_shared_mem_info w = [(''session_id'', c_int), (''user_mem_addr'', c_pointer w)]"

lemmas layout_defs = struct_size_def struct_align_def round_up_def c_int_def c_char_def c_pointer_def c_array_def
  c_uuid_def client_encode_cmd_def ser_ses_id_def user_ses_init_def ctx_data_def session_shared_mem_info_def

text \<open>The sizes for 64-bit callers; two of them differ for 32-bit callers.\<close>

lemma struct_sizes:
  "struct_size (client_encode_cmd 8) = 64" "struct_size ser_ses_id = 64" "struct_size user_ses_init = 4"
  "struct_size ctx_data = 260" "struct_size (session_shared_mem_info 8) = 16"
  "struct_size (client_encode_cmd 4) = 52" "struct_size (session_shared_mem_info 4) = 8"
  by (simp_all add: layout_defs)

subsection \<open>Requests\<close>

datatype tee_request =
    CLIENT_IOCTL_CANCEL_COMMAND | CLIENT_IOCTL_SEND_CMD_REQ | CLIENT_IOCTL_SES_OPEN_REQ
  | CLIENT_IOCTL_SES_CLOSE_REQ | CLIENT_IOCTL_SHR_MEM_FREE_REQ | CLIENT_IOCTL_ENC_UINT32
  | CLIENT_IOCTL_ENC_ARRAY | CLIENT_IOCTL_ENC_ARRAY_SPACE | CLIENT_IOCTL_ENC_MEM_REF
  | CLIENT_IOCTL_DEC_UINT32 | CLIENT_IOCTL_DEC_ARRAY_SPACE | CLIENT_IOCTL_OPERATION_RELEASE
  | CLIENT_IOCTL_GET_DECODE_TYPE | CLIENT_IOCTL_INITCONTEXT_REQ | CLIENT_IOCTL_CLOSECONTEXT_REQ
  | CLIENT_IOCTL_SES_INIT_REQ

definition CLIENT_IOC_MAGIC :: u32 where "CLIENT_IOC_MAGIC = 0x775B777F"

definition tee_iow :: "u32 \<Rightarrow> (string \<times> member_layout) list \<Rightarrow> u32" where
  "tee_iow nr fs = IOW CLIENT_IOC_MAGIC nr (word_of_nat (struct_size fs))"

definition tee_iowr :: "u32 \<Rightarrow> (string \<times> member_layout) list \<Rightarrow> u32" where
  "tee_iowr nr fs = IOC 3 CLIENT_IOC_MAGIC nr (word_of_nat (struct_size fs))"

fun tee_request_code :: "nat \<Rightarrow> tee_request \<Rightarrow> u32" where
  "tee_request_code w CLIENT_IOCTL_CANCEL_COMMAND = tee_iow 0x1002 ctx_data"
| "tee_request_code w CLIENT_IOCTL_SEND_CMD_REQ = tee_iowr 3 (client_encode_cmd w)"
| "tee_request_code w CLIENT_IOCTL_SES_OPEN_REQ = tee_iow 4 ser_ses_id"
| "tee_request_code w CLIENT_IOCTL_SES_CLOSE_REQ = tee_iowr 5 ser_ses_id"
| "tee_request_code w CLIENT_IOCTL_SHR_MEM_FREE_REQ = tee_iowr 6 (session_shared_mem_info w)"
| "tee_request_code w CLIENT_IOCTL_ENC_UINT32 = tee_iowr 7 (client_encode_cmd w)"
| "tee_request_code w CLIENT_IOCTL_ENC_ARRAY = tee_iowr 8 (client_encode_cmd w)"
| "tee_request_code w CLIENT_IOCTL_ENC_ARRAY_SPACE = tee_iowr 9 (client_encode_cmd w)"
| "tee_request_code w CLIENT_IOCTL_ENC_MEM_REF = tee_iowr 10 (client_encode_cmd w)"
| "tee_request_code w CLIENT_IOCTL_DEC_UINT32 = tee_iowr 11 (client_encode_cmd w)"
| "tee_request_code w CLIENT_IOCTL_DEC_ARRAY_SPACE = tee_iowr 12 (client_encode_cmd w)"
| "tee_request_code w CLIENT_IOCTL_OPERATION_RELEASE = tee_iowr 13 (client_encode_cmd w)"
| "tee_request_code w CLIENT_IOCTL_GET_DECODE_TYPE = tee_iowr 15 (client_encode_cmd w)"
| "tee_request_code w CLIENT_IOCTL_INITCONTEXT_REQ = tee_iow 16 ctx_data"
| "tee_request_code w CLIENT_IOCTL_CLOSECONTEXT_REQ = tee_iow 17 ctx_data"
| "tee_request_code w CLIENT_IOCTL_SES_INIT_REQ = tee_iow 18 user_ses_init"

fun request_low :: "tee_request \<Rightarrow> u32" where
  "request_low CLIENT_IOCTL_CANCEL_COMMAND = 2"
| "request_low CLIENT_IOCTL_SEND_CMD_REQ = 3"
| "request_low CLIENT_IOCTL_SES_OPEN_REQ = 4"
| "request_low CLIENT_IOCTL_SES_CLOSE_REQ = 5"
| "request_low CLIENT_IOCTL_SHR_MEM_FREE_REQ = 6"
| "request_low CLIENT_IOCTL_ENC_UINT32 = 7"
| "request_low CLIENT_IOCTL_ENC_ARRAY = 8"
| "request_low CLIENT_IOCTL_ENC_ARRAY_SPACE = 9"
| "request_low CLIENT_IOCTL_ENC_MEM_REF = 10"
| "request_low CLIENT_IOCTL_DEC_UINT32 = 11"
| "request_low CLIENT_IOCTL_DEC_ARRAY_SPACE = 12"
| "request_low CLIENT_IOCTL_OPERATION_RELEASE = 13"
| "request_low CLIENT_IOCTL_GET_DECODE_TYPE = 15"
| "request_low CLIENT_IOCTL_INITCONTEXT_REQ = 16"
| "request_low CLIENT_IOCTL_CLOSECONTEXT_REQ = 17"
| "request_low CLIENT_IOCTL_SES_INIT_REQ = 18"

text \<open>
  The magic has 31 bits where the encoding has room for 8, and the number \<open>0x1002\<close> has 13: they lie
  over the size and the direction.  Only the low byte is that of the request.
\<close>

lemma IOC_byte: "take_bit 8 (IOC dir ty nr sz) = take_bit 8 nr"
  by (simp add: IOC_def take_bit_or take_bit_push_bit)

lemma request_byte: "take_bit 8 (tee_request_code w r) = request_low r"
  by (cases r) (simp_all add: tee_iow_def tee_iowr_def IOW_def IOC_byte)

text \<open>The requests are different all the same, for callers of any pointer size.\<close>

lemma tee_requests_differ: "tee_request_code w r = tee_request_code w' r' \<Longrightarrow> r = r'"
proof -
  assume "tee_request_code w r = tee_request_code w' r'"
  then have "request_low r = request_low r'" by (metis request_byte)
  then show "r = r'" by (cases r; cases r'; simp)
qed

text \<open>What the macros of the kernel read back as the size of the structure (\<open>_IOC_SIZE\<close>) is not its size.\<close>

definition IOC_SIZE :: "u32 \<Rightarrow> u32" where
  "IOC_SIZE code = take_bit 14 (drop_bit 16 code)"

lemma tee_size_unreadable:
  "IOC_SIZE (tee_request_code w CLIENT_IOCTL_SES_INIT_REQ) = 0x1B77"
  "IOC_SIZE (tee_request_code w CLIENT_IOCTL_INITCONTEXT_REQ) = 0x1B77"
  by (simp_all add: IOC_SIZE_def tee_iow_def IOW_def IOC_def CLIENT_IOC_MAGIC_def struct_sizes)

subsection \<open>Parameter types\<close>

text \<open>\<open>TEEIC_PARAM_TYPES\<close> of \<open>teei_client_api.h\<close> packs as the macro of the library does.\<close>

definition TEEIC_PARAM_TYPES :: "u32 \<Rightarrow> u32 \<Rightarrow> u32 \<Rightarrow> u32 \<Rightarrow> u32" where
  "TEEIC_PARAM_TYPES t0 t1 t2 t3 = push_bit 12 t3 OR push_bit 8 t2 OR push_bit 4 t1 OR t0"

lemma teeic_param_types: "TEEIC_PARAM_TYPES = TEEC_PARAM_TYPES"
  by (simp add: fun_eq_iff TEEIC_PARAM_TYPES_def TEEC_PARAM_TYPES_def)

end
