(* ===== verification/SpiTest.thy ===== *)
theory SpiTest
  imports TeeDemo Device
begin

text \<open>
  The test program \<open>libese_spi_client/80t-test-ap.cpp\<close>: NCI frames to the NFC controller, SPI
  frames to the secure element, and a \<open>main\<close> that powers the element and runs the
  demonstration.  The kernel is a parameter answered from the log; an array is its bytes, so
  an index past its end is a fault.
\<close>

subsection \<open>The kernel\<close>

datatype io_event =
    IoWrite i32 "u8 list" i32
  | IoRead i32 nat "u8 list option"
  | IoSleep nat
  | IoClose i32
  | IoOpen string i32
  | IoIoctl i32 ioctl_cmd i32 i32

type_synonym io_log = "io_event list"

text \<open>
  A read gives the bytes that arrived or an error; the size of a pointer is that of the
  target.
\<close>

record io_env =
  io_write :: "io_log \<Rightarrow> i32 \<Rightarrow> u8 list \<Rightarrow> i32"
  io_read :: "io_log \<Rightarrow> i32 \<Rightarrow> nat \<Rightarrow> u8 list option"
  io_errno :: "io_log \<Rightarrow> i32"
  io_open :: "io_log \<Rightarrow> string \<Rightarrow> i32"
  io_ioctl :: "io_log \<Rightarrow> i32 \<Rightarrow> ioctl_cmd \<Rightarrow> i32 \<Rightarrow> i32"
  pointer_size :: nat

definition and_then :: "'a outcome \<times> io_log \<Rightarrow> ('a \<Rightarrow> io_log \<Rightarrow> 'b outcome \<times> io_log) \<Rightarrow> 'b outcome \<times> io_log" where
  "and_then m k = (case m of (Inl f, tr) \<Rightarrow> (Inl f, tr) | (Inr x, tr) \<Rightarrow> k x tr)"

lemma and_then_simps [simp]: "and_then (Inl f, tr) k = (Inl f, tr)" "and_then (Inr x, tr) k = k x tr"
  by (simp_all add: and_then_def)

definition do_write :: "io_env \<Rightarrow> i32 \<Rightarrow> u8 list \<Rightarrow> io_log \<Rightarrow> i32 \<times> io_log" where
  "do_write E fd bs tr = (let r = io_write E tr fd bs in (r, IoWrite fd bs r # tr))"

text \<open>\<open>read(fd, &buf[off], n)\<close>: at most \<open>n\<close> bytes arrive and are stored, and counted.\<close>

definition do_read :: "io_env \<Rightarrow> i32 \<Rightarrow> u8 list \<Rightarrow> nat \<Rightarrow> nat \<Rightarrow> io_log \<Rightarrow> (i32 \<times> u8 list) outcome \<times> io_log" where
  "do_read E fd buf off n tr =
     (let r = io_read E tr fd n; tr = IoRead fd n r # tr in
      case r of None \<Rightarrow> (Inr (- 1, buf), tr)
      | Some bs \<Rightarrow> (map_sum id (\<lambda>buf. (word_of_nat (length (take n bs)), buf)) (mem_write buf off (take n bs)), tr))"

text \<open>Reading the first \<open>n\<close> elements of an array, as the printing loops do.\<close>

definition touch :: "u8 list \<Rightarrow> nat \<Rightarrow> io_log \<Rightarrow> unit outcome \<times> io_log" where
  "touch buf n tr = (if n \<le> length buf then Inr () else Inl OutOfBounds, tr)"

subsection \<open>NCI frames\<close>

definition core_reset_cmd :: "u8 list" where "core_reset_cmd = [0x20, 0x00, 0x01, 0x01]"
definition core_init_cmd :: "u8 list" where "core_init_cmd = [0x20, 0x01, 0x00]"
definition nxp_property_cmd :: "u8 list" where "nxp_property_cmd = [0x2F, 0x02, 0x00]"
definition nfcee_discover_cmd :: "u8 list" where "nfcee_discover_cmd = [0x22, 0x00, 0x01, 0x01]"
definition nfcee_mode_set_cmd :: "u8 list" where "nfcee_mode_set_cmd = [0x22, 0x01, 0x02, 0x01, 0x01]"
definition nfcee_core_conn_create_cmd :: "u8 list" where
  "nfcee_core_conn_create_cmd = [0x20, 0x04, 0x06, 0x03, 0x01, 0x01, 0x02, 0x01, 0x01]"
definition core_conn_credits_ntf :: "u8 list" where
  "core_conn_credits_ntf = [0x60, 0x06, 0x03, 0x01, 0x03, 0x01]"
definition nci_ese_test_data :: "u8 list" where
  "nci_ese_test_data = [0x03, 0x00, 0x07, 0x99, 0x50, 0x80, 0xCA, 0x9F, 0x7F, 0x00]"
definition get_dwp_status_cmd :: "u8 list" where
  "get_dwp_status_cmd = [0x20, 0x03, 0x05, 0x02, 0xA0, 0xEC, 0xA0, 0xED]"
definition nxp_set_pwr_req_internal_cmd :: "u8 list" where
  "nxp_set_pwr_req_internal_cmd = [0x20, 0x02, 0x05, 0x01, 0xA0, 0xF2, 0x01, 0x00]"
definition nxp_set_pwr_req_external_cmd :: "u8 list" where
  "nxp_set_pwr_req_external_cmd = [0x20, 0x02, 0x05, 0x01, 0xA0, 0xF2, 0x01, 0x01]"
definition nxp_set_standby_cmd :: "u8 list" where "nxp_set_standby_cmd = [0x2F, 0x00, 0x01, 0x00]"

text \<open>The loop of \<open>send_nci_data\<close>, with \<open>retry\<close> failures so far.\<close>

function nci_send_loop :: "io_env \<Rightarrow> i32 \<Rightarrow> u8 list \<Rightarrow> nat \<Rightarrow> io_log \<Rightarrow> i32 \<times> io_log" where
  "nci_send_loop E fp bs retry tr =
     (let (ret, tr) = do_write E fp bs tr in
      if is_neg ret then
        let tr = IoSleep 5000 # tr; retry = retry + 1
        in if 3 < retry then (ret, tr) else nci_send_loop E fp bs retry tr
      else (ret, tr))"
  by pat_completeness auto
termination by (relation "measure (\<lambda>(E, fp, bs, retry, tr). 4 - retry)") auto

declare nci_send_loop.simps [simp del]

definition send_nci_data :: "io_env \<Rightarrow> i32 \<Rightarrow> u8 list \<Rightarrow> nat \<Rightarrow> io_log \<Rightarrow> i32 outcome \<times> io_log" where
  "send_nci_data E fp data len tr =
     and_then (touch data (max 3 len) tr) (\<lambda>_ tr. let (r, tr) = nci_send_loop E fp (take len data) 0 tr in (Inr r, tr))"

text \<open>
  \<open>recv_nci_data\<close>: \<open>sizeof\<close> of the array parameter is the size of a pointer.  A failed
  header read closes the device and returns \<open>errno\<close>.
\<close>

definition recv_nci_data :: "io_env \<Rightarrow> i32 \<Rightarrow> u8 list \<Rightarrow> io_log \<Rightarrow> (i32 \<times> u8 list) outcome \<times> io_log" where
  "recv_nci_data E fp recv_data tr =
     (case mem_write recv_data 0 (replicate (pointer_size E) 0) of Inl f \<Rightarrow> (Inl f, tr)
      | Inr buf \<Rightarrow>
        and_then (do_read E fp buf 0 3 tr) (\<lambda>(ret, buf) tr.
          if is_neg ret then (Inr (io_errno E tr, buf), IoClose fp # tr)
          else if buf ! 0 = 0x51 then (Inr (0x51, buf), tr)
          else
            and_then (do_read E fp buf 3 (unat (buf ! 2)) tr) (\<lambda>(ret, buf) tr.
            and_then (touch buf (3 + unat (buf ! 2)) tr) (\<lambda>_ tr. (Inr (ret, buf), tr)))))"

text \<open>The commands that are one exchange: send, then receive into a zeroed local array.\<close>

definition nci_command :: "io_env \<Rightarrow> i32 \<Rightarrow> u8 list \<Rightarrow> nat \<Rightarrow> io_log \<Rightarrow> i32 outcome \<times> io_log" where
  "nci_command E fp cmd len tr =
     and_then (send_nci_data E fp cmd len tr) (\<lambda>_ tr.
     and_then (recv_nci_data E fp (replicate 255 0) tr) (\<lambda>(ret, _) tr. (Inr ret, tr)))"

definition nci_reset_int :: "io_env \<Rightarrow> i32 \<Rightarrow> io_log \<Rightarrow> i32 outcome \<times> io_log" where
  "nci_reset_int E fp tr =
     and_then (send_nci_data E fp core_reset_cmd (length core_reset_cmd) tr) (\<lambda>ret tr.
     if is_neg ret then (Inr ret, tr)
     else and_then (recv_nci_data E fp (replicate 255 0) tr) (\<lambda>_ tr.
       nci_command E fp core_init_cmd (length core_init_cmd) tr))"

definition nci_nxp_property :: "io_env \<Rightarrow> i32 \<Rightarrow> io_log \<Rightarrow> i32 outcome \<times> io_log" where
  "nci_nxp_property E fp = nci_command E fp nxp_property_cmd (length nxp_property_cmd)"

definition nxp_set_standby :: "io_env \<Rightarrow> i32 \<Rightarrow> io_log \<Rightarrow> i32 outcome \<times> io_log" where
  "nxp_set_standby E fp = nci_command E fp nxp_set_standby_cmd (length nxp_set_standby_cmd)"

definition nci_get_dwp_swp_status :: "io_env \<Rightarrow> i32 \<Rightarrow> io_log \<Rightarrow> i32 outcome \<times> io_log" where
  "nci_get_dwp_swp_status E fp = nci_command E fp get_dwp_status_cmd (length get_dwp_status_cmd)"

definition nxp_set_pwr_req_internal :: "io_env \<Rightarrow> i32 \<Rightarrow> io_log \<Rightarrow> i32 outcome \<times> io_log" where
  "nxp_set_pwr_req_internal E fp = nci_command E fp nxp_set_pwr_req_internal_cmd (length nxp_set_pwr_req_internal_cmd)"

definition nxp_set_pwr_req_external :: "io_env \<Rightarrow> i32 \<Rightarrow> io_log \<Rightarrow> i32 outcome \<times> io_log" where
  "nxp_set_pwr_req_external E fp = nci_command E fp nxp_set_pwr_req_external_cmd (length nxp_set_pwr_req_external_cmd)"

text \<open>\<open>nfcee_discover\<close> sends its command with the size of another one; both have four bytes.\<close>

definition nfcee_discover :: "io_env \<Rightarrow> i32 \<Rightarrow> io_log \<Rightarrow> i32 outcome \<times> io_log" where
  "nfcee_discover E fp tr =
     and_then (nci_command E fp nfcee_discover_cmd (length core_reset_cmd) tr) (\<lambda>_ tr.
     and_then (recv_nci_data E fp (replicate 255 0) tr) (\<lambda>(ret, _) tr. (Inr ret, tr)))"

definition nfcee_mode_set :: "io_env \<Rightarrow> i32 \<Rightarrow> io_log \<Rightarrow> i32 outcome \<times> io_log" where
  "nfcee_mode_set E fp tr =
     and_then (nci_command E fp nfcee_mode_set_cmd (length nfcee_mode_set_cmd) tr) (\<lambda>_ tr.
     and_then (recv_nci_data E fp (replicate 255 0) tr) (\<lambda>(ret, _) tr. (Inr ret, tr)))"

definition nfcee_core_conn_create :: "io_env \<Rightarrow> i32 \<Rightarrow> io_log \<Rightarrow> i32 outcome \<times> io_log" where
  "nfcee_core_conn_create E fp = nci_command E fp nfcee_core_conn_create_cmd (length nfcee_core_conn_create_cmd)"

text \<open>It returns a variable that is never assigned.\<close>

definition nfcee_ese_discovery_and_mode_set :: "io_env \<Rightarrow> i32 \<Rightarrow> io_log \<Rightarrow> i32 outcome \<times> io_log" where
  "nfcee_ese_discovery_and_mode_set E fp tr =
     and_then (nfcee_discover E fp tr) (\<lambda>_ tr.
     and_then (nfcee_core_conn_create E fp tr) (\<lambda>_ tr.
     and_then (nfcee_mode_set E fp tr) (\<lambda>_ tr. (Inl Uninitialised, tr))))"

subsection \<open>A data exchange\<close>

text \<open>
  The two receive loops of \<open>data_msg_exchange\<close> have no bound: \<open>None\<close> is a loop that never
  ends.  The result is the last \<open>memcmp\<close> or \<open>ret\<close>, with the array.
\<close>

definition is_credit :: "u8 list \<Rightarrow> bool" where
  "is_credit buf \<longleftrightarrow> take (length core_conn_credits_ntf) buf = core_conn_credits_ntf"

partial_function (option) wait_for_data ::
  "io_env \<Rightarrow> i32 \<Rightarrow> io_log \<Rightarrow> ((i32 \<times> u8 list) outcome \<times> io_log) option" where
  "wait_for_data E fp tr =
     (let (res, tr) = recv_nci_data E fp (replicate 255 0) tr in
      case res of Inl f \<Rightarrow> Some (Inl f, tr)
      | Inr (ret, buf) \<Rightarrow> if buf ! 0 = 0x03 then Some (Inr (ret, buf), tr) else wait_for_data E fp tr)"

partial_function (option) wait_for_credit ::
  "io_env \<Rightarrow> i32 \<Rightarrow> u8 list \<Rightarrow> io_log \<Rightarrow> ((i32 \<times> u8 list) outcome \<times> io_log) option" where
  "wait_for_credit E fp buf tr =
     (let (res, tr) = recv_nci_data E fp buf tr in
      case res of Inl f \<Rightarrow> Some (Inl f, tr)
      | Inr (ret, buf) \<Rightarrow> if is_credit buf then Some (Inr (0, buf), tr) else wait_for_credit E fp buf tr)"

definition data_msg_exchange :: "io_env \<Rightarrow> i32 \<Rightarrow> u8 list \<Rightarrow> nat \<Rightarrow> io_log \<Rightarrow>
    ((i32 \<times> u8 list) outcome \<times> io_log) option" where
  "data_msg_exchange E fp data_msg len tr =
     (let (res, tr) = and_then (send_nci_data E fp data_msg len tr) (\<lambda>_ tr. recv_nci_data E fp (replicate 255 0) tr) in
      case res of Inl f \<Rightarrow> Some (Inl f, tr)
      | Inr (ret, buf) \<Rightarrow> if is_credit buf then wait_for_data E fp tr else wait_for_credit E fp buf tr)"

definition nfcee_ese_test :: "io_env \<Rightarrow> i32 \<Rightarrow> io_log \<Rightarrow> ((i32 \<times> u8 list) outcome \<times> io_log) option" where
  "nfcee_ese_test E fp tr = data_msg_exchange E fp nci_ese_test_data (length nci_ese_test_data) tr"

subsection \<open>Bounds of the NCI layer\<close>

fun writes :: "io_log \<Rightarrow> nat" where
  "writes [] = 0"
| "writes (IoWrite _ _ _ # tr) = Suc (writes tr)"
| "writes (_ # tr) = writes tr"

fun slept :: "io_log \<Rightarrow> nat" where
  "slept [] = 0"
| "slept (IoSleep us # tr) = us + slept tr"
| "slept (_ # tr) = slept tr"

lemma send_loop_spec:
  assumes "retry < 4" and "nci_send_loop E fp bs retry tr = (r, tr')"
  shows "\<exists>k. retry + k \<le> 4 \<and> 0 < writes tr' - writes tr \<and> writes tr' = writes tr + (if is_neg r then k else Suc k) \<and>
    slept tr' = slept tr + 5000 * k \<and> (is_neg r \<longrightarrow> retry + k = 4) \<and> (\<not> is_neg r \<longrightarrow> retry + k < 4)"
  using assms
proof (induction E fp bs retry tr arbitrary: r tr' rule: nci_send_loop.induct)
  case (1 E fp bs retry tr)
  obtain r1 tr1 where w: "do_write E fp bs tr = (r1, tr1)" by fastforce
  then have tr1: "writes tr1 = Suc (writes tr)" "slept tr1 = slept tr"
    by (auto simp: do_write_def Let_def)
  consider (ok) "\<not> is_neg r1" | (last) "is_neg r1" "retry = 3" | (again) "is_neg r1" "retry < 3"
    using "1.prems"(1) by linarith
  then show ?case
  proof cases
    case ok
    with "1.prems" w tr1 show ?thesis
      by (subst (asm) nci_send_loop.simps) (auto intro!: exI [of _ 0])
  next
    case last
    with "1.prems" w tr1 show ?thesis
      by (subst (asm) nci_send_loop.simps) (auto intro!: exI [of _ 1])
  next
    case again
    then have "nci_send_loop E fp bs (retry + 1) (IoSleep 5000 # tr1) = (r, tr')"
      using "1.prems"(2) w by (subst (asm) nci_send_loop.simps) simp
    from "1.IH" [OF w [symmetric] refl again(1) refl refl _ _ this] again
    obtain k where "retry + 1 + k \<le> 4" "0 < writes tr' - writes tr1"
      "writes tr' = writes tr1 + (if is_neg r then k else Suc k)" "slept tr' = slept tr1 + 5000 + 5000 * k"
      "is_neg r \<longrightarrow> retry + 1 + k = 4" "\<not> is_neg r \<longrightarrow> retry + 1 + k < 4"
      by auto
    with tr1 show ?thesis by (intro exI [of _ "Suc k"]) auto
  qed
qed

text \<open>Sending a frame is tried at most four times, with 5 milliseconds of waiting after
  each failure (the comment says 50), and it fails only after four failures.\<close>

lemma send_bounded:
  assumes "send_nci_data E fp data len tr = (Inr r, tr')"
  shows "writes tr < writes tr' \<and> writes tr' \<le> writes tr + 4 \<and> slept tr' \<le> slept tr + 20000 \<and>
    (is_neg r \<longrightarrow> writes tr' = writes tr + 4 \<and> slept tr' = slept tr + 20000)"
proof -
  from assms have "nci_send_loop E fp (take len data) 0 tr = (r, tr')"
    by (auto simp: send_nci_data_def touch_def split_beta split: if_splits)
  from send_loop_spec [OF _ this] show ?thesis by (auto split: if_splits)
qed

definition quiet_io :: io_env where
  "quiet_io = \<lparr>io_write = (\<lambda>_ _ bs. word_of_nat (length bs)), io_read = (\<lambda>_ _ _. None), io_errno = (\<lambda>_. 5),
     io_open = (\<lambda>_ _. 3), io_ioctl = (\<lambda>_ _ _ _. 0), pointer_size = 8\<rparr>"

lemma send_bounded_witness:
  "\<exists>tr'. send_nci_data (quiet_io\<lparr>io_write := \<lambda>_ _ _. - 1\<rparr>) 3 core_init_cmd 3 [] = (Inr (- 1), tr') \<and> writes tr' = 4"
proof -
  have "\<exists>tr'. send_nci_data (quiet_io\<lparr>io_write := \<lambda>_ _ _. - 1\<rparr>) 3 core_init_cmd 3 [] = (Inr (- 1), tr')"
    by (simp add: send_nci_data_def touch_def core_init_cmd_def do_write_def nci_send_loop.simps Let_def)
  then obtain tr' where "send_nci_data (quiet_io\<lparr>io_write := \<lambda>_ _ _. - 1\<rparr>) 3 core_init_cmd 3 [] = (Inr (- 1), tr')" by blast
  with send_bounded [OF this] show ?thesis by simp
qed



text \<open>A device all of whose reads fail.\<close>

definition io_dead :: "io_env \<Rightarrow> bool" where
  "io_dead E \<longleftrightarrow> (\<forall>tr fd n. io_read E tr fd n = None) \<and> pointer_size E \<le> 8"

lemma recv_dead:
  assumes "io_dead E"
  shows "\<exists>e tr'. recv_nci_data E fp (replicate 255 0) tr = (Inr (e, replicate 255 0), tr')"
proof -
  have "mem_write (replicate 255 0) 0 (replicate (pointer_size E) 0) = Inr (replicate 255 (0 :: u8))"
    using assms by (simp add: io_dead_def mem_write_def replicate_add [symmetric])
  then show ?thesis using assms by (simp add: recv_nci_data_def do_read_def io_dead_def Let_def)
qed

lemma zero_no_credit: "\<not> is_credit (replicate 255 0)"
  by (simp add: is_credit_def core_conn_credits_ntf_def)

lemma wait_for_credit_dead:
  assumes "wait_for_credit E fp buf tr = Some res"
  shows "io_dead E \<longrightarrow> buf = replicate 255 0 \<longrightarrow> False"
proof (rule wait_for_credit.raw_induct [where P = "\<lambda>E fp buf tr res. io_dead E \<longrightarrow> buf = replicate 255 0 \<longrightarrow> False",
      OF _ assms])
  fix f :: "io_env \<Rightarrow> i32 \<Rightarrow> u8 list \<Rightarrow> io_log \<Rightarrow> ((i32 \<times> u8 list) outcome \<times> io_log) option"
  fix E fp buf tr res
  assume IH: "\<And>E fp buf tr res. f E fp buf tr = Some res \<Longrightarrow> io_dead E \<longrightarrow> buf = replicate 255 0 \<longrightarrow> False"
    and step: "(let (res, tr) = recv_nci_data E fp buf tr in
      case res of Inl f \<Rightarrow> Some (Inl f, tr)
      | Inr (ret, buf) \<Rightarrow> if is_credit buf then Some (Inr (0, buf), tr) else f E fp buf tr) = Some res"
  show "io_dead E \<longrightarrow> buf = replicate 255 0 \<longrightarrow> False"
  proof (intro impI)
    assume dead: "io_dead E" and buf: "buf = replicate 255 0"
    obtain e tr' where "recv_nci_data E fp buf tr = (Inr (e, replicate 255 0), tr')"
      using recv_dead [OF dead] buf by blast
    with step have "f E fp (replicate 255 0) tr' = Some res" by (simp add: zero_no_credit)
    from IH [OF this] dead show False by simp
  qed
qed

text \<open>C40.  A data exchange with a device whose reads fail never returns: the receive loop
  does not look at the error.\<close>

theorem exchange_hangs:
  assumes "io_dead E" and "3 \<le> length data_msg" and "len \<le> length data_msg"
  shows "data_msg_exchange E fp data_msg len tr = None"
proof -
  obtain r tr1 where send: "send_nci_data E fp data_msg len tr = (Inr r, tr1)"
    using assms(2,3) by (simp add: send_nci_data_def touch_def split_beta)
  obtain e tr2 where "recv_nci_data E fp (replicate 255 0) tr1 = (Inr (e, replicate 255 0), tr2)"
    using recv_dead [OF assms(1)] by blast
  with send have "data_msg_exchange E fp data_msg len tr = wait_for_credit E fp (replicate 255 0) tr2"
    by (simp add: data_msg_exchange_def zero_no_credit)
  moreover have "wait_for_credit E fp (replicate 255 0) tr2 = None"
    using wait_for_credit_dead [of E fp "replicate 255 0" tr2] assms(1) by (metis not_None_eq)
  ultimately show ?thesis by simp
qed

lemma exchange_hangs_witness: "nfcee_ese_test quiet_io 3 [] = None"
  unfolding nfcee_ese_test_def
  by (rule exchange_hangs) (simp_all add: io_dead_def quiet_io_def nci_ese_test_data_def)

subsection \<open>SPI frames\<close>

definition send_ese_data_by_spi :: "io_env \<Rightarrow> i32 \<Rightarrow> u8 list \<Rightarrow> nat \<Rightarrow> io_log \<Rightarrow> i32 outcome \<times> io_log" where
  "send_ese_data_by_spi E fp data len tr =
     and_then (touch data len tr) (\<lambda>_ tr.
       let (ret, tr) = do_write E fp (take len data) tr in
       if is_neg ret then
         let tr = IoSleep 50000 # tr; (ret, tr) = do_write E fp (take len data) tr in (Inr ret, tr)
       else (Inr ret, tr))"

definition recv_ese_data_by_spi :: "io_env \<Rightarrow> i32 \<Rightarrow> u8 list \<Rightarrow> nat \<Rightarrow> io_log \<Rightarrow> (i32 \<times> u8 list) outcome \<times> io_log" where
  "recv_ese_data_by_spi E fp recv_data len tr =
     and_then (do_read E fp recv_data 0 len tr) (\<lambda>(ret, buf) tr.
       if is_neg ret then (Inr (io_errno E tr, buf), IoClose fp # tr) else (Inr (ret, buf), tr))"

definition ESE_SOF :: u8 where "ESE_SOF = 0xA5"

text \<open>
  The search for the start of a frame, in an array of 256 bytes, with \<open>count\<close> attempts made:
  \<open>read_cplc_data\<close> skips a zero byte in the same attempt (\<open>skip\<close>) and makes 8 attempts,
  \<open>ese_read_data\<close> makes 1000.
\<close>

function find_sof :: "io_env \<Rightarrow> bool \<Rightarrow> nat \<Rightarrow> i32 \<Rightarrow> nat \<Rightarrow> u8 list \<Rightarrow> io_log \<Rightarrow> u8 list outcome \<times> io_log" where
  "find_sof E skip bound fp count buf tr =
     (let count = count + 1 in
      and_then (do_read E fp buf 0 1 tr) (\<lambda>(_, buf) tr.
      and_then (if skip \<and> buf ! 0 = 0x00 then do_read E fp buf 0 1 tr else (Inr (0, buf), tr)) (\<lambda>(_, buf) tr.
      if buf ! 0 \<noteq> ESE_SOF \<and> count < bound then find_sof E skip bound fp count buf tr else (Inr buf, tr))))"
  by pat_completeness auto
termination by (relation "measure (\<lambda>(E, skip, bound, fp, count, buf, tr). bound - count)") auto

declare find_sof.simps [simp del]

definition read_cplc_data :: "io_env \<Rightarrow> i32 \<Rightarrow> io_log \<Rightarrow> i32 outcome \<times> io_log" where
  "read_cplc_data E fp tr =
     and_then (find_sof E True 8 fp 0 (replicate 256 0) tr) (\<lambda>buf tr.
     if buf ! 0 \<noteq> ESE_SOF then (Inr (- ETIME), tr)
     else and_then (do_read E fp buf 1 2 tr) (\<lambda>(_, buf) tr.
       and_then (do_read E fp buf 3 (unat (buf ! 2) + 1) tr) (\<lambda>(ret, buf) tr.
       and_then (touch buf 51 tr) (\<lambda>_ tr. (Inr ret, tr)))))"

definition ese_read_data :: "io_env \<Rightarrow> i32 \<Rightarrow> io_log \<Rightarrow> i32 outcome \<times> io_log" where
  "ese_read_data E fp tr =
     and_then (find_sof E False 1000 fp 0 (replicate 256 0) tr) (\<lambda>buf tr.
     if buf ! 0 \<noteq> ESE_SOF then (Inr (- ETIME), tr)
     else and_then (do_read E fp buf 1 2 tr) (\<lambda>(_, buf) tr.
       let len = unat (buf ! 2) + 1; total_count = 3 + len in
       and_then (do_read E fp buf 3 len tr) (\<lambda>(_, buf) tr.
       and_then (touch buf total_count tr) (\<lambda>_ tr. (Inr (word_of_nat total_count), tr)))))"

definition reset_cmd :: "u8 list" where "reset_cmd = [0x5A, 0xC4, 0x00, 0xC4]"
definition open_ch_cmd :: "u8 list" where "open_ch_cmd = [0x5A, 0x00, 0x04, 0x01, 0x70, 0x80, 0x01, 0xF4]"
definition cplc_cmd :: "u8 list" where "cplc_cmd = [0x5A, 0x00, 0x05, 0x80, 0xCA, 0x9F, 0x7F, 0x00, 0xAF]"
definition cmd_end :: "u8 list" where "cmd_end = [0x5A, 0x40, 0x05, 0x00, 0xA4, 0x04, 0x00, 0x00, 0xE5]"
definition open_logic_1 :: "u8 list" where "open_logic_1 = [0x5A, 0x00, 0x04, 0x01, 0x70, 0x00, 0x01, 0x74]"
definition select_isd :: "u8 list" where
  "select_isd = [0x5A, 0x00, 0x0E, 0x01, 0xA4, 0x04, 0x00, 0x08, 0xA0, 0x00, 0x00, 0x01, 0x51, 0x00, 0x00, 0x00,
     0x00, 0x57]"
definition cplc_cmd_logic1 :: "u8 list" where
  "cplc_cmd_logic1 = [0x5A, 0x00, 0x05, 0x81, 0xCA, 0x9F, 0x7F, 0x00, 0xAE]"
definition clsoe_logic_1 :: "u8 list" where "clsoe_logic_1 = [0x5A, 0x00, 0x04, 0x01, 0x70, 0x80, 0x01, 0xF4]"
definition select_isd_logic0 :: "u8 list" where
  "select_isd_logic0 = [0x5A, 0x40, 0x0E, 0x01, 0xA4, 0x04, 0x00, 0x08, 0xA0, 0x00, 0x00, 0x01, 0x51, 0x00, 0x00,
     0x00, 0x00, 0x16]"
definition cplc_cmd_logic0 :: "u8 list" where
  "cplc_cmd_logic0 = [0x5A, 0x00, 0x05, 0x80, 0xCA, 0x9F, 0x7F, 0x00, 0xAF]"

definition ese_command :: "io_env \<Rightarrow> i32 \<Rightarrow> u8 list \<Rightarrow> io_log \<Rightarrow> i32 outcome \<times> io_log" where
  "ese_command E fp cmd tr =
     and_then (send_ese_data_by_spi E fp cmd (length cmd) tr) (\<lambda>_ tr. ese_read_data E fp tr)"

definition ese_reset_cmd :: "io_env \<Rightarrow> i32 \<Rightarrow> io_log \<Rightarrow> i32 outcome \<times> io_log" where
  "ese_reset_cmd E fp = ese_command E fp reset_cmd"

text \<open>\<open>while ((readcount <= 4) && (i++ < 10))\<close>, with \<open>i\<close> repetitions so far.\<close>

function common_cmd_loop :: "io_env \<Rightarrow> i32 \<Rightarrow> u8 list \<Rightarrow> nat \<Rightarrow> nat \<Rightarrow> io_log \<Rightarrow> i32 outcome \<times> io_log" where
  "common_cmd_loop E fp pcmd cmdlen i tr =
     and_then (send_ese_data_by_spi E fp pcmd cmdlen tr) (\<lambda>_ tr.
     and_then (ese_read_data E fp tr) (\<lambda>readcount tr.
     if sint readcount \<le> 4 \<and> i < 10 then common_cmd_loop E fp pcmd cmdlen (i + 1) tr else (Inr readcount, tr)))"
  by pat_completeness auto
termination by (relation "measure (\<lambda>(E, fp, pcmd, cmdlen, i, tr). 10 - i)") auto

declare common_cmd_loop.simps [simp del]

definition ese_common_cmd_test :: "io_env \<Rightarrow> i32 \<Rightarrow> u8 list \<Rightarrow> nat \<Rightarrow> io_log \<Rightarrow> i32 outcome \<times> io_log" where
  "ese_common_cmd_test E fp pcmd cmdlen tr = common_cmd_loop E fp pcmd cmdlen 0 tr"

definition cplc_test_80t_logicCh1 :: "io_env \<Rightarrow> i32 \<Rightarrow> io_log \<Rightarrow> i32 outcome \<times> io_log" where
  "cplc_test_80t_logicCh1 E fp tr =
     and_then (ese_reset_cmd E fp tr) (\<lambda>_ tr.
     and_then (ese_command E fp select_isd tr) (\<lambda>_ tr.
     and_then (ese_command E fp cplc_cmd_logic1 tr) (\<lambda>_ tr.
     and_then (ese_command E fp clsoe_logic_1 tr) (\<lambda>_ tr. (Inr 0, tr)))))"

definition cplc_test_80t_logicCh0 :: "io_env \<Rightarrow> i32 \<Rightarrow> io_log \<Rightarrow> i32 outcome \<times> io_log" where
  "cplc_test_80t_logicCh0 E fp tr =
     and_then (ese_reset_cmd E fp tr) (\<lambda>_ tr.
     and_then (ese_command E fp select_isd_logic0 tr) (\<lambda>_ tr.
     and_then (ese_command E fp cplc_cmd_logic0 tr) (\<lambda>_ tr. (Inr 0, tr))))"

definition cplc_test_80t_basiCh0 :: "io_env \<Rightarrow> i32 \<Rightarrow> io_log \<Rightarrow> i32 outcome \<times> io_log" where
  "cplc_test_80t_basiCh0 E fp tr =
     and_then (ese_reset_cmd E fp tr) (\<lambda>_ tr.
     and_then (ese_command E fp cplc_cmd tr) (\<lambda>_ tr. (Inr 0, tr)))"

subsection \<open>The frame check\<close>

text \<open>
  A frame of the SPI protocol: the start byte, a control byte, the length of the information,
  the information, and the exclusive or of everything after the start byte.
\<close>

definition lrc :: "u8 list \<Rightarrow> u8" where "lrc bs = foldr (XOR) bs 0"

definition frame_ok :: "u8 list \<Rightarrow> bool" where
  "frame_ok fr \<longleftrightarrow> 4 \<le> length fr \<and> hd fr = 0x5A \<and> unat (fr ! 2) = length fr - 4 \<and> last fr = lrc (butlast (tl fr))"

lemmas frame_defs = reset_cmd_def open_ch_cmd_def cplc_cmd_def cmd_end_def open_logic_1_def select_isd_def
  cplc_cmd_logic1_def clsoe_logic_1_def select_isd_logic0_def cplc_cmd_logic0_def

text \<open>Every frame the program can send to the secure element is well formed, with the
  right length and check byte, except one: the selection of the issuer's domain on channel 0
  names channel 1 and carries the check byte of channel 0, so the element must reject it.\<close>

lemma frames_checked:
  "list_all frame_ok [reset_cmd, open_ch_cmd, cplc_cmd, cmd_end, open_logic_1, select_isd, cplc_cmd_logic1,
     clsoe_logic_1, cplc_cmd_logic0] \<and>
   \<not> frame_ok select_isd_logic0 \<and> frame_ok (select_isd_logic0[3 := 0x00])"
  by (simp add: frame_ok_def lrc_def frame_defs)

subsection \<open>Bounds of the SPI layer\<close>

fun reads :: "io_log \<Rightarrow> nat" where
  "reads [] = 0"
| "reads (IoRead _ _ _ # tr) = Suc (reads tr)"
| "reads (_ # tr) = reads tr"

lemma and_then_Inr:
  "and_then m k = (Inr y, tr') \<longleftrightarrow> (\<exists>x tr. m = (Inr x, tr) \<and> k x tr = (Inr y, tr'))"
  by (auto simp: and_then_def split: prod.splits sum.splits)

lemma do_read_log: "do_read E fp buf off n tr = (res, tr') \<Longrightarrow>
    writes tr' = writes tr \<and> reads tr' = Suc (reads tr) \<and> slept tr' = slept tr"
  by (auto simp: do_read_def Let_def split: option.splits)

lemma touch_Inr: "touch buf n tr = (Inr x, tr') \<longleftrightarrow> n \<le> length buf \<and> tr' = tr"
  by (auto simp: touch_def)

lemma send_ese_log:
  "send_ese_data_by_spi E fp data len tr = (Inr r, tr') \<Longrightarrow> writes tr' \<le> writes tr + 2 \<and> reads tr' = reads tr"
  by (auto simp: send_ese_data_by_spi_def and_then_Inr touch_Inr do_write_def Let_def split: if_splits)

lemma find_sof_log:
  "find_sof E skip bound fp count buf tr = (Inr buf', tr') \<Longrightarrow> count < bound \<Longrightarrow>
    writes tr' = writes tr \<and> reads tr' \<le> reads tr + (if skip then 2 else 1) * (bound - count)"
proof (induction E skip bound fp count buf tr arbitrary: buf' tr' rule: find_sof.induct)
  case (1 E skip bound fp count buf tr)
  from "1.prems"(1) [unfolded find_sof.simps [of E skip bound fp count buf tr]] obtain r1 b1 t1 r2 b2 t2
    where a: "do_read E fp buf 0 1 tr = (Inr (r1, b1), t1)"
      and b: "(if skip \<and> b1 ! 0 = 0x00 then do_read E fp b1 0 1 t1 else (Inr (0, b1), t1)) = (Inr (r2, b2), t2)"
      and c: "(if b2 ! 0 \<noteq> ESE_SOF \<and> Suc count < bound then find_sof E skip bound fp (Suc count) b2 t2 else (Inr b2, t2)) = (Inr buf', tr')"
    by (auto simp: and_then_Inr Let_def)
  have l: "writes t2 = writes tr" "reads t2 \<le> reads tr + (if skip then 2 else 1)"
    using do_read_log [OF a] b do_read_log [of E fp b1 0 1 t1 "Inr (r2, b2)" t2] by (auto split: if_splits)
  show ?case
  proof (cases "b2 ! 0 \<noteq> ESE_SOF \<and> Suc count < bound")
    case True
    with c have f: "find_sof E skip bound fp (count + 1) b2 t2 = (Inr buf', tr')" by simp
    have d: "bound - count = Suc (bound - (count + 1))" using True by arith
    from "1.IH" [OF refl _ f] True l show ?thesis unfolding d by auto
  next
    case False
    with c l "1.prems"(2) show ?thesis by (auto intro: order_trans)
  qed
qed

lemma ese_read_log:
  assumes "ese_read_data E fp tr = (Inr r, tr')"
  shows "writes tr' = writes tr \<and> reads tr' \<le> reads tr + 1002"
proof -
  from assms obtain buf t1 where s: "find_sof E False 1000 fp 0 (replicate 256 0) tr = (Inr buf, t1)"
    and r: "(if buf ! 0 \<noteq> ESE_SOF then (Inr (- ETIME), t1)
     else and_then (do_read E fp buf 1 2 t1) (\<lambda>(_, buf) tr.
       let len = unat (buf ! 2) + 1; total_count = 3 + len in
       and_then (do_read E fp buf 3 len tr) (\<lambda>(_, buf) tr.
       and_then (touch buf total_count tr) (\<lambda>_ tr. (Inr (word_of_nat total_count), tr))))) = (Inr r, tr')"
    by (auto simp only: ese_read_data_def and_then_Inr)
  from find_sof_log [OF s] have l: "writes t1 = writes tr" "reads t1 \<le> reads tr + 1000" by auto
  show ?thesis
  proof (cases "buf ! 0 = ESE_SOF")
    case True
    with r obtain a b t2 c d where "do_read E fp buf 1 2 t1 = (Inr (a, b), t2)"
      "do_read E fp b 3 (unat (b ! 2) + 1) t2 = (Inr (c, d), tr')"
      by (auto simp: and_then_Inr Let_def touch_Inr)
    from do_read_log [OF this(1)] do_read_log [OF this(2)] l show ?thesis by auto
  next
    case False
    with r l show ?thesis by auto
  qed
qed

lemma common_cmd_log:
  "common_cmd_loop E fp pcmd cmdlen i tr = (Inr r, tr') \<Longrightarrow> i \<le> 10 \<Longrightarrow>
    writes tr' \<le> writes tr + 2 * (11 - i) \<and> reads tr' \<le> reads tr + 1002 * (11 - i)"
proof (induction E fp pcmd cmdlen i tr arbitrary: r tr' rule: common_cmd_loop.induct)
  case (1 E fp pcmd cmdlen i tr)
  from "1.prems"(1) [unfolded common_cmd_loop.simps [of E fp pcmd cmdlen i tr]]
  obtain x t1 n t2 where s: "send_ese_data_by_spi E fp pcmd cmdlen tr = (Inr x, t1)"
    and g: "ese_read_data E fp t1 = (Inr n, t2)"
    and c: "(if sint n \<le> 4 \<and> i < 10 then common_cmd_loop E fp pcmd cmdlen (i + 1) t2 else (Inr n, t2)) = (Inr r, tr')"
    by (auto simp only: and_then_Inr)
  have l: "writes t2 \<le> writes tr + 2" "reads t2 \<le> reads tr + 1002"
    using send_ese_log [OF s] ese_read_log [OF g] by auto
  show ?case
  proof (cases "sint n \<le> 4 \<and> i < 10")
    case True
    with c have f: "common_cmd_loop E fp pcmd cmdlen (i + 1) t2 = (Inr r, tr')" by simp
    have d: "11 - i = Suc (11 - (i + 1))" using True by arith
    from "1.IH" [OF _ f] True have "writes tr' \<le> writes t2 + 2 * (11 - (i + 1)) \<and> reads tr' \<le> reads t2 + 1002 * (11 - (i + 1))"
      by auto
    with l show ?thesis unfolding d mult_Suc_right by (intro conjI) linarith+
  next
    case False
    with c have "tr' = t2" by simp
    moreover obtain k where "11 - i = Suc k" using "1.prems"(2) by (cases "11 - i") auto
    ultimately show ?thesis using l by simp
  qed
qed

text \<open>The test of a command always returns, whatever the element does: it sends the
  command at most 11 times (each with one retry) and reads at most 1002 times for each.\<close>

lemma common_cmd_bounded:
  assumes "ese_common_cmd_test E fp pcmd cmdlen tr = (Inr r, tr')"
  shows "writes tr' \<le> writes tr + 22 \<and> reads tr' \<le> reads tr + 11022"
  using common_cmd_log [of E fp pcmd cmdlen 0 tr r tr'] assms by (simp add: ese_common_cmd_test_def)

text \<open>An element that sends nothing but start bytes, one at a time.\<close>

definition sof_io :: io_env where
  "sof_io = \<lparr>io_write = \<lambda>_ _ bs. word_of_nat (length bs), io_read = \<lambda>_ _ n. Some (take n [ESE_SOF]),
     io_errno = \<lambda>_. 5, io_open = \<lambda>_ _. 3, io_ioctl = \<lambda>_ _ _ _. 0, pointer_size = 8\<rparr>"

lemma common_cmd_bounded_witness:
  "\<exists>r tr'. ese_common_cmd_test sof_io 3 reset_cmd (length reset_cmd) [] = (Inr r, tr') \<and> writes tr' \<le> 22"
proof -
  have "\<exists>r tr'. ese_common_cmd_test sof_io 3 reset_cmd (length reset_cmd) [] = (Inr r, tr')"
    by (simp add: ese_common_cmd_test_def common_cmd_loop.simps send_ese_data_by_spi_def ese_read_data_def
        find_sof.simps do_write_def do_read_def touch_def mem_write_def sof_io_def reset_cmd_def Let_def take_Cons')
  then obtain r tr' where "ese_common_cmd_test sof_io 3 reset_cmd (length reset_cmd) [] = (Inr r, tr')" by blast
  with common_cmd_bounded [OF this] show ?thesis by simp
qed

text \<open>Reading a frame of the element is not bounded by the array either: when the start
  byte comes first and the header arrives, \<open>ese_read_data\<close> faults exactly when the length byte
  is 253 or more.\<close>

lemma ese_read_faults_iff:
  assumes "io_read E tr fp 1 = Some [ESE_SOF]"
    and "io_read E (IoRead fp 1 (Some [ESE_SOF]) # tr) fp 2 = Some [h1, h2]"
  shows "(\<exists>f tr'. ese_read_data E fp tr = (Inl f, tr')) \<longleftrightarrow> 253 \<le> unat h2"
proof -
  let ?t1 = "IoRead fp 1 (Some [ESE_SOF]) # tr" and ?b1 = "ESE_SOF # replicate 255 0"
  let ?t2 = "IoRead fp 2 (Some [h1, h2]) # ?t1" and ?b2 = "[ESE_SOF, h1, h2] @ replicate 253 0"
  have "mem_write (replicate 256 0) 0 [ESE_SOF] = Inr ?b1"
    by (simp add: mem_write_def)
  then have r1: "do_read E fp (replicate 256 0) 0 1 tr = (Inr (1, ?b1), ?t1)"
    using assms(1) by (simp add: do_read_def Let_def)
  then have s: "find_sof E False 1000 fp 0 (replicate 256 0) tr = (Inr ?b1, ?t1)"
    by (subst find_sof.simps) (simp add: Let_def)
  have "mem_write ?b1 1 [h1, h2] = Inr ?b2"
    by (simp add: mem_write_def)
  then have r2: "do_read E fp ?b1 1 2 ?t1 = (Inr (2, ?b2), ?t2)"
    using assms(2) by (simp add: do_read_def Let_def)
  define n where "n = unat h2 + 1"
  have n: "unat (?b2 ! 2) + 1 = n" by (simp add: n_def)
  have data: "ese_read_data E fp tr = and_then (do_read E fp ?b2 3 n ?t2) (\<lambda>(_, buf) tr.
      and_then (touch buf (3 + n) tr) (\<lambda>_ tr. (Inr (word_of_nat (3 + n)), tr)))"
    unfolding ese_read_data_def s and_then_simps Let_def r2 n
    by (simp del: One_nat_def add: r2 n_def)
  show ?thesis
  proof (cases "io_read E ?t2 fp n")
    case None
    then show ?thesis by (auto simp: data do_read_def touch_def n_def)
  next
    case (Some bs)
    have "length (take n bs) \<le> n" by simp
    then show ?thesis
      using Some by (auto simp: data do_read_def touch_def mem_write_def n_def)
  qed
qed

lemma ese_read_faults_iff_witness:
  "(\<exists>f tr'. ese_read_data (sof_io\<lparr>io_read := \<lambda>_ _ n. Some (if n = 1 then [ESE_SOF] else [0x00, 0xFE])\<rparr>) 3 [] = (Inl f, tr'))"
  using ese_read_faults_iff [of "sof_io\<lparr>io_read := \<lambda>_ _ n. Some (if n = 1 then [ESE_SOF] else [0x00, 0xFE])\<rparr>"
      "[]" 3 "0x00" "0xFE"]
  by simp

subsection \<open>The program\<close>

text \<open>
  \<open>main\<close>: the status of the element, read into \<open>ese_current_state\<close> (which starts as 0), is only
  printed.  When the device cannot be opened the program exits with 0.
\<close>

definition io_request :: "io_env \<Rightarrow> i32 \<Rightarrow> ioctl_cmd \<Rightarrow> i32 \<Rightarrow> io_log \<Rightarrow> io_log" where
  "io_request E fd cmd arg tr = IoIoctl fd cmd arg (io_ioctl E tr fd cmd arg) # tr"

definition spi_test_main :: "io_env \<Rightarrow> tee_env \<Rightarrow> demo_opt list \<Rightarrow> io_log \<times> tee_event list \<Rightarrow>
    i32 outcome \<times> io_log \<times> tee_event list" where
  "spi_test_main E T opts = (\<lambda>(tr, ttr).
     let esefp = io_open E tr ''/dev/pn553''; tr = IoOpen ''/dev/pn553'' esefp # tr in
     if is_neg esefp then (Inr 0, tr, ttr)
     else
       let tr = io_request E esefp P544_SET_POWER_SCHEME 2 tr;
           tr = io_request E esefp P61_GET_PWR_STATUS 0 tr;
           tr = io_request E esefp P61_SET_SPI_PWR 3 tr;
           tr = io_request E esefp P61_SET_SPI_PWR 4 tr;
           tr = IoSleep 1000000 # tr
       in case teeclientdemo T opts ttr of (Inl f, ttr) \<Rightarrow> (Inl f, tr, ttr)
          | (Inr _, ttr) \<Rightarrow> (Inr 0, IoClose esefp # io_request E esefp P61_SET_SPI_PWR 0 tr, ttr))"

fun spi_power :: "io_log \<Rightarrow> (i32 \<times> i32) list" where
  "spi_power [] = []"
| "spi_power (IoIoctl fd P61_SET_SPI_PWR v r # tr) = (fd, v) # spi_power tr"
| "spi_power (_ # tr) = spi_power tr"

lemma spi_power_request:
  "spi_power (io_request E fd cmd v tr) = (if cmd = P61_SET_SPI_PWR then (fd, v) # spi_power tr else spi_power tr)"
  by (cases cmd) (simp_all add: io_request_def)

text \<open>The program powers the element for the demonstration only: when it returns (with 0)
  after it opened the device, it has asked for SPI power, for the release of the priority mode
  and for power off, in this order and of the device it opened, which it closed last, and the
  TEE library is idle again; when the demonstration faults, the element stays powered.\<close>

lemma test_program_power:
  assumes "tee_replay ttr = Some tee_idle" and "\<not> is_neg (io_open E tr ''/dev/pn553'')"
    and "spi_test_main E T opts (tr, ttr) = (r, tr', ttr')"
  shows "let fd = io_open E tr ''/dev/pn553'' in
    case r of Inr ret \<Rightarrow> ret = 0 \<and> hd tr' = IoClose fd \<and> tee_replay ttr' = Some tee_idle \<and>
        spi_power tr' = [(fd, 0), (fd, 4), (fd, 3)] @ spi_power tr
      | Inl f \<Rightarrow> spi_power tr' = [(fd, 4), (fd, 3)] @ spi_power tr"
  using assms demo_idle [of T opts ttr]
  by (auto simp: spi_test_main_def Let_def spi_power_request split: prod.splits sum.splits)

lemma test_program_power_witness:
  "case spi_test_main sof_io echo_tee [] ([], []) of (r, tr', ttr') \<Rightarrow>
     r = Inr 0 \<and> spi_power tr' = [(3, 0), (3, 4), (3, 3)] \<and> tee_replay ttr' = Some tee_idle"
proof -
  obtain r tr' ttr' where m: "spi_test_main sof_io echo_tee [] ([], []) = (r, tr', ttr')" by (metis prod_cases3)
  moreover from this have "r = Inr 0"
    by (simp add: spi_test_main_def teeclientdemo_def tee_start_def do_init_def do_tee_open_def do_alloc_def echo_tee_def
        sof_io_def INIT_CONTEXT_FAILED_def OPEN_SESSION_FAILED_def split_beta Let_def)
  ultimately show ?thesis
    using test_program_power [of "[]" sof_io "[]" echo_tee "[]" r tr' ttr'] by (simp add: sof_io_def)
qed

end
