(* ===== verification/Spec2Isabelle.thy ===== *)
theory Spec2Isabelle
  imports PowerThreads PowerRaces PowerFaults WrapperRace Servers CplcThreads TeeDemoC TeeOperation TeeEntries TeeRequests SpiTest
begin

text \<open>
  A model of the native code of the secure element (eSE) services of an Android device, with
  the theorems that make it correct and those that pin down where it is not.

  \<^bold>\<open>The program.\<close>  Two daemons serve the element.  \<open>esepmdaemon\<close> owns its power: a process
  that wants to use the element asks for \<open>powerOn\<close> and gives a callback object; the daemon opens
  \<open>/dev/p73\<close>, drives the power with \<open>ioctl\<close> requests, counts the uses of every process in a map
  from pids, watches for the death of its clients, and switches off when nobody is left.
  \<open>eseManagerServiceDaemon\<close> carries commands to a trusted application in the TEE
  (\<open>libese_spi_client\<close>) and binding commands to the fingerprint application.  Both are reached
  through Android's interprocess calls, by C wrapper libraries that look the service up and
  remember it, by command line tools, and by the native methods of a Java library
  (\<open>eseManager_fw/jni\<close>), which switch the power on, read the CPLC record of the chip and switch the
  power off again.  \<open>libese_spi_client\<close> also has two demonstrations and a test program that talks to
  the NFC controller and to the element directly.

  \<^bold>\<open>Conventions\<close> (\<open>Prelude\<close>).  Integers keep their width: \<open>u8\<close>, \<open>u32\<close> and \<open>i32\<close> are words, and
  \<open>is_neg\<close>, \<open>is_pos\<close> and \<open>c_rem\<close> read the signed ones as C does.  A memory object is the list of
  its bytes; \<open>mem_read\<close> and \<open>mem_write\<close> fault past its end, a value of type \<open>'a outcome\<close> is a fault
  or a result, and what C leaves undefined is a fault.  The outside world (kernel, IPC driver,
  service manager, TEE library, fingerprint library, Java virtual machine) is a record of
  functions, the parameter of the definitions that use it; every call is logged, newest first, and
  its answer may depend on the whole log, so a theorem about all environments is about all
  behaviours of the outside world.  Logging and other output without effect is left out.

  \<^bold>\<open>The power daemon.\<close>
  \<open>Device\<close>: the ioctl numbers, state flags and schemes of \<open>p73.h\<close> and \<open>pn553.h\<close>.
  \<open>PidMap\<close>: \<open>std::map<uint32_t, T>\<close>, as a sorted association list behind the interface
  \<open>ordered_map\<close>.
  \<open>Callers\<close>: uids and pids, and the uid checks of both services.
  \<open>PowerManager\<close>: \<open>eSEPowerManager.cpp\<close>.  The record \<open>epm\<close> has the members of the class (\<open>nq_node\<close>,
  \<open>pidsMap\<close>), the static \<open>isFirstCalled\<close>, a counter that gives notifiers their identity, and the
  log; \<open>powerOn\<close>, \<open>powerOff\<close>, \<open>getState\<close>, \<open>killall\<close>, \<open>geteSEBindingStatus\<close> and \<open>binderDied\<close> are the
  functions of these names, in the order of their statements, early returns included.
  \<open>PowerInvariants\<close>: the step relation \<open>epm_step\<close>, the reachable states \<open>reaches\<close>, the interface
  \<open>call_relation\<close>, and the descriptor discipline.
  \<open>PowerRegistry\<close>: the registry is well formed, and refines a ledger of uses per process.
  \<open>PowerSafety\<close>: no power cut while a process is registered, registered processes are powered,
  refused callers change nothing, the binding gate.
  \<open>PowerSessions\<close>: balanced sessions of one process.
  \<open>PowerExact\<close>: powered exactly when somebody is registered, while driver and links work.
  \<open>PowerSharing\<close>: what the other processes can do to a session; deaths in the middle of a
  \<open>powerOn\<close>, which the daemon handles without its mutex, and the power they can lose.
  \<open>PowerRaces\<close>: \<open>powerOn\<close>, \<open>powerOff\<close> and \<open>binderDied\<close> with every access to the registry and to the
  device as a step of its own (\<open>on_step\<close>, \<open>off_step\<close>, \<open>die_step\<close>), and schedules of one call and any
  number of deaths.  Alone the steps are the functions of \<open>PowerManager\<close>; behind the interface
  \<open>own_entry\<close>, which says what a call may find in the entry of its process at each of its points,
  deaths of other clients leave a call and the uses as they are, and beside a \<open>powerOff\<close> also
  the power (\<open>power_fits\<close>); the death of the caller
  itself can crash the daemon or keep the power on for ever, and a death can cut the power of a
  client that powered on in the middle of it.
  \<open>PowerThreads\<close>: threads of several processes going round \<open>powerOn\<close> and \<open>powerOff\<close> in any
  interleaving; the counts are the threads inside, and the power is on exactly while there are any.
  \<open>PowerFaults\<close>: what happens when they do not, and the death links that are left behind.

  \<^bold>\<open>Its remote side.\<close>
  \<open>Parcel\<close>: Android's parcels and transports as parameters; \<open>parcel_fifo\<close> says that a parcel
  yields what was written in that order, \<open>delivers\<close> that a transport hands a call to the handler
  of the other side, \<open>base_refuses\<close> that the default handler answers without data; a list of items
  and \<open>loopback\<close> are an instance of them.
  \<open>PowerBinder\<close>: \<open>BneSEPowerManager.cpp\<close> and \<open>BpeSEPowerManager.cpp\<close>; the proxy is transparent but
  for \<open>killall\<close>, which the stub does not know.
  \<open>ServiceClient\<close>: the look-up both wrappers share, behind the interface \<open>service_lookup\<close>.
  \<open>PowerClient\<close>: \<open>eSEPowerManager_wrapper.cpp\<close> and \<open>eSEPowerManagerClient.cpp\<close>.
  \<open>WrapperRace\<close>: the functions of the wrappers with every access to their global proxy as a step of
  its own: alone they are the calls of the model; several threads are safe when the service is
  published within the attempts of a look-up and does not die (\<open>published_within\<close>), and not
  otherwise.
  \<open>Servers\<close>: the two server programs, what they publish, and when their clients find them.

  \<^bold>\<open>The manager service.\<close>
  \<open>TeeClient\<close>: \<open>libese_spi_client.cpp\<close>: \<open>ca_sendEseCommand\<close> and \<open>ca_getEseCplc\<close>, the protocol of
  the TEE client library as an automaton over the log (\<open>tee_replay\<close>), and the interface
  \<open>tee_routine\<close> of the routines that leave it idle.
  \<open>TeeOperation\<close>: the structures of \<open>tee_client_api.h\<close> (parameter types, shared memory, references,
  operations), the same calls with these structures filled in field by field (\<open>ca_exchange_op\<close>),
  and the rules the header states for an operation (\<open>operation_ok\<close>).
  \<open>TeeRequests\<close>: the requests of the TEE driver in \<open>teei_client.h\<close>, their numbers and the sizes of
  their structures.
  \<open>ManagerService\<close>: \<open>eseManagerService.cpp\<close>.  \<open>ManagerBinder\<close>: \<open>IeseManagerService.cpp\<close>, stub and
  proxy with the memory of the caller.  \<open>ManagerClient\<close>: \<open>eseManager_wrapper.cpp\<close> and
  \<open>main_eseManagerClient.cpp\<close>.

  \<^bold>\<open>The applications.\<close>
  \<open>Jni\<close>: \<open>eseManager_jni.cpp\<close>, a process connected to both daemons; its theorems go end to end,
  from the native method through wrapper, proxy, stub and service to the trusted application.
  \<open>CplcTest\<close>: one thread of \<open>getCplcTest.cpp\<close> on its own.  \<open>CplcThreads\<close>: the whole program, its
  \<open>main\<close> and its threads in any interleaving with each other, with an interrupt, with the calls of
  other processes and with the single steps of the deaths the daemon hears of (\<open>die_step\<close>); a call
  of a wrapper is one step.  \<open>calm_runs\<close> are the runs in which nobody is registered while a death
  stands between its test of the registry and its request to cut the power.
  \<open>TeeDemo\<close>: the demonstration at the end of \<open>libese_spi_client.cpp\<close>; its operations are checked
  against the header in \<open>TeeOperation\<close>.  \<open>TeeDemoC\<close>: the earlier \<open>teeclientdemo.c\<close> with its four
  parameters, against the protocol of the library.
  \<open>TeeList\<close>: the intrusive linked list of \<open>tee_client_api.h\<close> over an explicit memory, as a
  refinement of a deque.  \<open>TeeEntries\<close>: its iterations over the structures that contain a node.
  \<open>SpiTest\<close>: \<open>80t-test-ap.cpp\<close>.

  \<^bold>\<open>Bounds.\<close>  Counts in the registry are 32-bit, so its invariant speaks of fewer than \<open>2^31\<close>
  requests.  The look-up makes 5 attempts, an NCI frame is sent at most 4 times, a start byte is
  sought 8 or 1000 times and a command repeated 11 times: these loops are recursive functions with
  a measure on the counter of the code.  The loops of \<open>data_msg_exchange\<close> and the iteration over a
  list have no bound, and are partial functions for which not returning is \<open>None\<close>.  The stress test
  starts at most 100 threads of 1000000 rounds of 5 steps, well under the \<open>2^31\<close> its invariant allows;
  \<open>work\<close> bounds its steps.

  \<^bold>\<open>Not modelled.\<close> Data races below the level of the steps above:
  \<open>PowerRaces\<close> splits a call and a death of the power daemon at every access to the registry,
  \<open>WrapperRace\<close> splits a call of a wrapper at its accesses to the proxy, \<open>CplcThreads\<close> takes calls
  whole and deaths in steps, and everywhere else a request, a death or a call is one step.  In
  \<open>CplcThreads\<close> no news of the death of a former process with the pid of the test comes while it
  lives.  What C++ leaves undefined when a map or a smart pointer
  is used by two threads at the same moment is not modelled, nor is the iteration of \<open>killall\<close>
  beside a death that erases. The transactions of the manager
  service are taken one at a time: they share no variable but \<open>myParam\<close>, whose update is not locked. \<open>printPidsMap\<close> and the rest of the logging;
  \<open>getCplc.cpp\<close>, a copy of \<open>eseManager_jni.cpp\<close> with an empty
  \<open>main\<close> that no makefile builds; of the vendor's headers, the declarations that no
  code here uses: the library's own structures, its return origins and login flags, and the
  functions of \<open>teei_client_api.h\<close>; the drivers, \<open>libmtee.so\<close>
  and the fingerprint library, which are parameters; and the Java code.
\<close>

end
